theory Spec2Isabelle
  imports Main "HOL-Library.AList"
begin

section \<open>Strings and the standard-library helpers the harness calls\<close>

text \<open>
  Go strings are byte sequences; they are modelled as \<open>string\<close> (a list of 8-bit
  characters). The functions of this section are Go's \<open>path.Clean\<close>,
  \<open>path.Join\<close>, \<open>path.Base\<close> and \<open>strings.TrimSpace\<close>.
\<close>

definition newline :: char where
  "newline = CHR 0x0A"

definition dquote :: char where
  "dquote = CHR 0x22"

fun splitOn :: "char \<Rightarrow> string \<Rightarrow> string list" where
  "splitOn c [] = [[]]"
| "splitOn c (x # xs) =
     (if x = c then [] # splitOn c xs
      else (case splitOn c xs of [] \<Rightarrow> [[x]] | w # ws \<Rightarrow> (x # w) # ws))"

fun joinWith :: "string \<Rightarrow> string list \<Rightarrow> string" where
  "joinWith sep [] = []"
| "joinWith sep [x] = x"
| "joinWith sep (x # y # ys) = x @ sep @ joinWith sep (y # ys)"

text \<open>
  \<open>path.Clean\<close>: the output buffer of the Go loop is kept as a stack of path elements
  (innermost first). A \<open>..\<close> element removes the real element before it, is dropped at
  the root of a rooted path, and is kept otherwise.
\<close>

fun cleanElems :: "bool \<Rightarrow> string list \<Rightarrow> string list \<Rightarrow> string list" where
  "cleanElems rooted stack [] = rev stack"
| "cleanElems rooted stack (e # es) =
     (if e = [] \<or> e = ''.'' then cleanElems rooted stack es
      else if e = ''..'' then
        (case stack of
           t # ts \<Rightarrow>
             (if t \<noteq> ''..'' then cleanElems rooted ts es
              else cleanElems rooted (e # stack) es)
         | [] \<Rightarrow>
             (if rooted then cleanElems rooted stack es
              else cleanElems rooted (e # stack) es))
      else cleanElems rooted (e # stack) es)"

definition path_Clean :: "string \<Rightarrow> string" where
  "path_Clean p =
     (if p = [] then ''.''
      else
        (let rooted = (hd p = CHR ''/'');
             body = joinWith ''/'' (cleanElems rooted [] (splitOn (CHR ''/'') p));
             res = (if rooted then CHR ''/'' # body else body)
         in if res = [] then ''.'' else res))"

definition path_Join :: "string list \<Rightarrow> string" where
  "path_Join elems =
     (case dropWhile (\<lambda>e. e = []) elems of
        [] \<Rightarrow> []
      | es \<Rightarrow> path_Clean (joinWith ''/'' es))"

definition path_Base :: "string \<Rightarrow> string" where
  "path_Base p =
     (if p = [] then ''.''
      else
        (let q = rev (dropWhile (\<lambda>c. c = CHR ''/'') (rev p));
             r = rev (takeWhile (\<lambda>c. c \<noteq> CHR ''/'') (rev q))
         in if r = [] then ''/'' else r))"

text \<open>
  \<open>strings.TrimSpace\<close> removes leading and trailing white space as \<open>unicode.IsSpace\<close>
  defines it. The list holds the UTF-8 encodings of those code points: the six ASCII
  ones, U+0085, U+00A0, U+1680, U+2000 to U+200A, U+2028, U+2029, U+202F, U+205F and
  U+3000.
\<close>

definition unicodeSpaces :: "string list" where
  "unicodeSpaces =
     [[CHR 0x09], [CHR 0x0A], [CHR 0x0B], [CHR 0x0C], [CHR 0x0D], [CHR 0x20],
      [CHR 0xC2, CHR 0x85], [CHR 0xC2, CHR 0xA0],
      [CHR 0xE1, CHR 0x9A, CHR 0x80],
      [CHR 0xE2, CHR 0x80, CHR 0x80], [CHR 0xE2, CHR 0x80, CHR 0x81],
      [CHR 0xE2, CHR 0x80, CHR 0x82], [CHR 0xE2, CHR 0x80, CHR 0x83],
      [CHR 0xE2, CHR 0x80, CHR 0x84], [CHR 0xE2, CHR 0x80, CHR 0x85],
      [CHR 0xE2, CHR 0x80, CHR 0x86], [CHR 0xE2, CHR 0x80, CHR 0x87],
      [CHR 0xE2, CHR 0x80, CHR 0x88], [CHR 0xE2, CHR 0x80, CHR 0x89],
      [CHR 0xE2, CHR 0x80, CHR 0x8A],
      [CHR 0xE2, CHR 0x80, CHR 0xA8], [CHR 0xE2, CHR 0x80, CHR 0xA9],
      [CHR 0xE2, CHR 0x80, CHR 0xAF],
      [CHR 0xE2, CHR 0x81, CHR 0x9F],
      [CHR 0xE3, CHR 0x80, CHR 0x80]]"

fun isPrefixOf :: "string \<Rightarrow> string \<Rightarrow> bool" where
  "isPrefixOf [] s = True"
| "isPrefixOf (p # ps) [] = False"
| "isPrefixOf (p # ps) (c # cs) = (p = c \<and> isPrefixOf ps cs)"

fun stripOne :: "string list \<Rightarrow> string \<Rightarrow> string option" where
  "stripOne [] s = None"
| "stripOne (w # ws) s =
     (if w \<noteq> [] \<and> isPrefixOf w s then Some (drop (length w) s) else stripOne ws s)"

lemma stripOne_shorter: "stripOne ws s = Some t \<Longrightarrow> length t < length s"
proof (induction ws)
  case Nil
  then show ?case by simp
next
  case (Cons w ws)
  show ?case
  proof (cases "w \<noteq> [] \<and> isPrefixOf w s")
    case True
    have "s \<noteq> []" using True by (cases w; cases s) auto
    with True Cons.prems show ?thesis by auto
  next
    case False
    with Cons show ?thesis by auto
  qed
qed

function trimLeftOf :: "string list \<Rightarrow> string \<Rightarrow> string" where
  "trimLeftOf ws s = (case stripOne ws s of None \<Rightarrow> s | Some t \<Rightarrow> trimLeftOf ws t)"
  by pat_completeness auto
termination
  by (relation "measure (\<lambda>(ws, s). length s)") (auto dest: stripOne_shorter)

definition strings_TrimSpace :: "string \<Rightarrow> string" where
  "strings_TrimSpace s =
     rev (trimLeftOf (map rev unicodeSpaces) (rev (trimLeftOf unicodeSpaces s)))"

section \<open>The version string: getAppVersion\<close>

text \<open>
  What \<open>getAppVersion\<close> reads from its surroundings. \<open>os.Stat\<close> returns a file info
  (of which only \<open>IsDir\<close> is used), an error that \<open>os.IsNotExist\<close> accepts, or any
  other error; in both error cases the returned info is nil. A command lookup or a
  command run is \<open>Some\<close> of its result when the returned error is nil.
\<close>

datatype StatResult = StatInfo bool | StatNotExist | StatOtherError

record VersionEnv =
  os_Getenv :: "string \<Rightarrow> string"
  exec_LookPath :: "string \<Rightarrow> string option"
  os_Stat :: "string \<Rightarrow> StatResult"
  cmd_Output :: "string \<Rightarrow> string list \<Rightarrow> string option"

text \<open>
  A Go function either returns or stops the program: \<open>Exit\<close> is the \<open>os.Exit\<close> of a
  \<open>Fatalf\<close>/\<open>Fatalln\<close> log call, \<open>NilDereference\<close> the run-time panic of a method call
  on a nil interface value.
\<close>

datatype abort = Exit | NilDereference

definition getAppVersion :: "VersionEnv \<Rightarrow> string \<Rightarrow> abort + string" where
  "getAppVersion env basePath =
     (let version = os_Getenv env ''APP_VERSION'' in
      if version \<noteq> [] then Inr version
      else
        (case exec_LookPath env ''git'' of
           Some gitPath \<Rightarrow>
             (let gitDir = path_Join [basePath, ''.git''] in
              case os_Stat env gitDir of
                StatNotExist \<Rightarrow> Inr []
              | StatOtherError \<Rightarrow> Inl NilDereference
              | StatInfo isDir \<Rightarrow>
                  if \<not> isDir then Inr []
                  else
                    (case cmd_Output env gitPath
                            [''--git-dir='' @ gitDir, ''describe'', ''--always'', ''--dirty''] of
                       None \<Rightarrow> Inr []
                     | Some out \<Rightarrow> Inr (''git-'' @ strings_TrimSpace out)))
         | None \<Rightarrow> Inr []))"

subsection \<open>Properties of getAppVersion\<close>

lemma getAppVersion_override:
  "os_Getenv env ''APP_VERSION'' \<noteq> [] \<Longrightarrow>
   getAppVersion env basePath = Inr (os_Getenv env ''APP_VERSION'')"
  by (simp add: getAppVersion_def)

lemma getAppVersion_faults_iff:
  "getAppVersion env basePath = Inl a \<longleftrightarrow>
     a = NilDereference \<and> os_Getenv env ''APP_VERSION'' = [] \<and>
     (\<exists>gitPath. exec_LookPath env ''git'' = Some gitPath) \<and>
     os_Stat env (path_Join [basePath, ''.git'']) = StatOtherError"
  by (auto simp: getAppVersion_def Let_def split: option.splits StatResult.splits)

text \<open>
  Claim C3. The version follows a precedence. (1) When \<open>APP_VERSION\<close> is set
  (non-empty), the version is that value, whatever the state of the checkout.
  (2) When it is unset and the application sits in a git checkout (\<open>.git\<close> under the
  base path is a directory) whose \<open>git describe\<close> run is available, that is, the git
  binary is found and the command returns its output, the version is \<open>git-\<close>
  followed by that output, with surrounding white space trimmed. (3) When it is
  unset and there is no \<open>.git\<close> entry, the version is the empty string.
\<close>

theorem getAppVersion_precedence:
  "(os_Getenv e1 ''APP_VERSION'' \<noteq> [] \<longrightarrow>
      getAppVersion e1 b1 = Inr (os_Getenv e1 ''APP_VERSION''))
   \<and> (os_Getenv e2 ''APP_VERSION'' = [] \<and>
        exec_LookPath e2 ''git'' = Some g \<and>
        os_Stat e2 (path_Join [b2, ''.git'']) = StatInfo True \<and>
        cmd_Output e2 g [''--git-dir='' @ path_Join [b2, ''.git''],
                         ''describe'', ''--always'', ''--dirty''] = Some out \<longrightarrow>
      getAppVersion e2 b2 = Inr (''git-'' @ strings_TrimSpace out))
   \<and> (os_Getenv e3 ''APP_VERSION'' = [] \<and>
        os_Stat e3 (path_Join [b3, ''.git'']) = StatNotExist \<longrightarrow>
      getAppVersion e3 b3 = Inr [])"
proof (intro conjI impI)
  assume "os_Getenv e1 ''APP_VERSION'' \<noteq> []"
  then show "getAppVersion e1 b1 = Inr (os_Getenv e1 ''APP_VERSION'')"
    by (rule getAppVersion_override)
next
  assume "os_Getenv e2 ''APP_VERSION'' = [] \<and>
        exec_LookPath e2 ''git'' = Some g \<and>
        os_Stat e2 (path_Join [b2, ''.git'']) = StatInfo True \<and>
        cmd_Output e2 g [''--git-dir='' @ path_Join [b2, ''.git''],
                         ''describe'', ''--always'', ''--dirty''] = Some out"
  then show "getAppVersion e2 b2 = Inr (''git-'' @ strings_TrimSpace out)"
    by (simp add: getAppVersion_def Let_def)
next
  assume "os_Getenv e3 ''APP_VERSION'' = [] \<and>
        os_Stat e3 (path_Join [b3, ''.git'']) = StatNotExist"
  then show "getAppVersion e3 b3 = Inr []"
    by (simp add: getAppVersion_def Let_def split: option.splits)
qed

text \<open>
  Three surroundings for the three cases: an override next to a working checkout, a
  working checkout whose describe run prints \<open>v1.2-3-gabc\<close> and a newline, and a
  directory without \<open>.git\<close>.
\<close>

definition env_override :: VersionEnv where
  "env_override =
     \<lparr>os_Getenv = (\<lambda>k. if k = ''APP_VERSION'' then ''2.0.1'' else []),
      exec_LookPath = (\<lambda>_. Some ''/usr/bin/git''),
      os_Stat = (\<lambda>_. StatInfo True),
      cmd_Output = (\<lambda>_ _. Some (''v1.2-3-gabc'' @ [newline]))\<rparr>"

definition env_checkout :: VersionEnv where
  "env_checkout =
     \<lparr>os_Getenv = (\<lambda>_. []),
      exec_LookPath = (\<lambda>_. Some ''/usr/bin/git''),
      os_Stat = (\<lambda>p. if p = ''/srv/app/.git'' then StatInfo True else StatNotExist),
      cmd_Output = (\<lambda>_ _. Some (''v1.2-3-gabc'' @ [newline]))\<rparr>"

definition env_plain :: VersionEnv where
  "env_plain =
     \<lparr>os_Getenv = (\<lambda>_. []),
      exec_LookPath = (\<lambda>_. Some ''/usr/bin/git''),
      os_Stat = (\<lambda>_. StatNotExist),
      cmd_Output = (\<lambda>_ _. None)\<rparr>"

lemma join_srv_app_git: "path_Join [''/srv/app'', ''.git''] = ''/srv/app/.git''"
  by (simp add: path_Join_def path_Clean_def)

lemma trim_describe_sample: "strings_TrimSpace (''v1.2-3-gabc'' @ [newline]) = ''v1.2-3-gabc''"
  by (simp add: strings_TrimSpace_def unicodeSpaces_def newline_def)

theorem getAppVersion_precedence_witness:
  "getAppVersion env_override ''/srv/app'' = Inr ''2.0.1''
   \<and> getAppVersion env_checkout ''/srv/app'' = Inr ''git-v1.2-3-gabc''
   \<and> getAppVersion env_plain ''/srv/app'' = Inr []"
  using getAppVersion_precedence
    [of env_override "''/srv/app''" env_checkout "''/usr/bin/git''" "''/srv/app''"
        "''v1.2-3-gabc'' @ [newline]" env_plain "''/srv/app''"]
    trim_describe_sample
  by (simp add: env_override_def env_checkout_def env_plain_def join_srv_app_git)

text \<open>
  Claim C4 says that no outcome of the \<open>.git\<close> check makes \<open>getAppVersion\<close> fault. The
  code guards only the not-exist error: with any other \<open>os.Stat\<close> error (permission
  denied, say) the left operand of \<open>||\<close> is false, so \<open>info.IsDir()\<close> is called on the
  nil info and the function panics instead of returning the empty string.
\<close>

definition env_stat_denied :: VersionEnv where
  "env_stat_denied =
     \<lparr>os_Getenv = (\<lambda>_. []),
      exec_LookPath = (\<lambda>_. Some ''/usr/bin/git''),
      os_Stat = (\<lambda>_. StatOtherError),
      cmd_Output = (\<lambda>_ _. None)\<rparr>"

theorem getAppVersion_stat_error_faults:
  "getAppVersion env_stat_denied ''/srv/app'' = Inl NilDereference"
  by (simp add: getAppVersion_def env_stat_denied_def)

section \<open>Errors and applications\<close>

text \<open>
  \<open>gospf.Error\<close> is the framework's error value (the spec's CompileError); the record
  holds the fields this repository reads or writes. A Go pointer that may be nil is an
  \<open>option\<close>.
\<close>

record Error =
  SourceType :: string
  Title :: string
  Path :: string
  Description :: string
  Line :: int
  SourceLines :: "string list"
  MetaError :: string
  Link :: string

definition emptyError :: Error where
  "emptyError =
     \<lparr>SourceType = [], Title = [], Path = [], Description = [], Line = 0,
      SourceLines = [], MetaError = [], Link = []\<rparr>"

text \<open>
  Modelled from the spec: the \<open>App\<close> type and its methods \<open>NewApp\<close>, \<open>Kill\<close> and
  \<open>Cmd().Start()\<close> are declared in a file of this repository that is not among the
  sources. The spec describes an App as a handle to one supervised child process
  (binary path, assigned port, underlying process handle); \<open>proc\<close> is the handle, the
  identifier of the started child, \<open>None\<close> before a successful start.
\<close>

record App =
  BinaryPath :: string
  Port :: int
  proc :: "nat option"

definition NewApp :: "string \<Rightarrow> App" where
  "NewApp binaryPath = \<lparr>BinaryPath = binaryPath, Port = 0, proc = None\<rparr>"

section \<open>Import aliases: calcImportAliases\<close>

text \<open>
  \<open>fmt.Sprintf("%s%d", pkgName, i)\<close> appends the decimal digits of \<open>i\<close>. The counter
  starts at 0 and only grows, so it is a natural number here; the 64-bit bound of
  Go's \<open>int\<close> is out of reach, since each step past a value needs one more entry in
  the table.
\<close>

definition digitChar :: "nat \<Rightarrow> char" where
  "digitChar d = ''0123456789'' ! d"

fun itoa :: "nat \<Rightarrow> string" where
  "itoa n = (if n < 10 then [digitChar n] else itoa (n div 10) @ [digitChar (n mod 10)])"

declare itoa.simps [simp del]

lemma digitChar_inj: "a < 10 \<Longrightarrow> b < 10 \<Longrightarrow> digitChar a = digitChar b \<Longrightarrow> a = b"
proof -
  assume a: "a < 10" and b: "b < 10" and e: "digitChar a = digitChar b"
  have d: "distinct ''0123456789''" by simp
  have "length ''0123456789'' = 10" by simp
  with a b e d show "a = b"
    unfolding digitChar_def by (metis nth_eq_iff_index_eq)
qed

lemma itoa_nonempty: "itoa n \<noteq> []"
  by (subst itoa.simps) simp

lemma itoa_inj: "itoa a = itoa b \<Longrightarrow> a = b"
proof (induction a arbitrary: b rule: itoa.induct)
  case (1 n)
  show ?case
  proof (cases "n < 10")
    case True
    then have n: "itoa n = [digitChar n]" by (subst itoa.simps) simp
    show ?thesis
    proof (cases "b < 10")
      case True
      then have "itoa b = [digitChar b]" by (subst itoa.simps) simp
      with n "1.prems" have "digitChar n = digitChar b" by simp
      with \<open>n < 10\<close> True show ?thesis by (rule digitChar_inj)
    next
      case False
      then have "itoa b = itoa (b div 10) @ [digitChar (b mod 10)]" by (subst itoa.simps) simp
      with n "1.prems" have "itoa (b div 10) = []" by simp
      then show ?thesis by (simp add: itoa_nonempty)
    qed
  next
    case False
    then have n: "itoa n = itoa (n div 10) @ [digitChar (n mod 10)]" by (subst itoa.simps) simp
    show ?thesis
    proof (cases "b < 10")
      case True
      then have "itoa b = [digitChar b]" by (subst itoa.simps) simp
      with n "1.prems" have "itoa (n div 10) = []" by simp
      then show ?thesis by (simp add: itoa_nonempty)
    next
      case bf: False
      then have b: "itoa b = itoa (b div 10) @ [digitChar (b mod 10)]" by (subst itoa.simps) simp
      from n b "1.prems" have e1: "itoa (n div 10) = itoa (b div 10)"
        and e2: "digitChar (n mod 10) = digitChar (b mod 10)" by simp_all
      from "1.IH" [OF False e1] have q: "n div 10 = b div 10" .
      have "n mod 10 < 10" "b mod 10 < 10" by simp_all
      from digitChar_inj [OF this e2] have r: "n mod 10 = b mod 10" .
      from q r show ?thesis by (metis div_mult_mod_eq)
    qed
  qed
qed

text \<open>
  The parts of the analyzer's \<open>SourceInfo\<close> that the alias computation reads. The
  types are declared in a file of this repository that is not among the sources; the
  fields are the ones \<open>calcImportAliases\<close> selects (\<open>arg_PkgName\<close> is
  \<open>methArg.TypeExpr.PkgName\<close>), and \<open>ControllerSpecs\<close> and \<open>TestSuites\<close> hold what the
  methods of these names return.
\<close>

record MethodArg =
  arg_ImportPath :: string
  arg_PkgName :: string

record MethodSpec =
  Args :: "MethodArg list"

record TypeInfo =
  ImportPath :: string
  PackageName :: string
  MethodSpecs :: "MethodSpec list"

record SourceInfo =
  ControllerSpecs :: "TypeInfo list"
  TestSuites :: "TypeInfo list"
  ValidationKeys :: "(string \<times> (int \<times> string) list) list"
  InitImportPaths :: "string list"

text \<open>
  The alias table is a Go map from import path to alias. Here it is an association
  list read with \<open>map_of\<close>; every write of the source goes to a key that the table
  lacks, so each key has one pair. \<open>containsValue\<close> ranges over the values as the
  source does.
\<close>

type_synonym aliasMap = "(string \<times> string) list"

fun containsValue :: "aliasMap \<Rightarrow> string \<Rightarrow> bool" where
  "containsValue [] val = False"
| "containsValue ((k, v) # m) val = (if v = val then True else containsValue m val)"

lemma containsValue_iff: "containsValue m val \<longleftrightarrow> val \<in> snd ` set m"
  by (induction m val rule: containsValue.induct) auto

lemma finite_suffixes: "finite {j. containsValue m (pkgName @ itoa j)}"
proof -
  have "inj (\<lambda>j. pkgName @ itoa j)"
    by (rule injI) (auto dest: itoa_inj)
  then have "finite ((\<lambda>j. pkgName @ itoa j) -` (snd ` set m))"
    by (intro finite_vimageI) simp_all
  moreover have "{j. containsValue m (pkgName @ itoa j)} = (\<lambda>j. pkgName @ itoa j) -` (snd ` set m)"
    by (auto simp: containsValue_iff)
  ultimately show ?thesis by simp
qed

text \<open>
  The loop of \<open>makePackageAlias\<close> with its two variables, the counter \<open>i\<close> and the
  candidate \<open>alias\<close>. It terminates because the table is finite and the decimal
  rendering is injective: the candidates in use from \<open>i\<close> on become fewer with
  every step.
\<close>

function aliasLoop :: "aliasMap \<Rightarrow> string \<Rightarrow> nat \<Rightarrow> string \<Rightarrow> string" where
  "aliasLoop aliases pkgName i alias =
     (if containsValue aliases alias then aliasLoop aliases pkgName (Suc i) (pkgName @ itoa i)
      else alias)"
  by pat_completeness auto
termination
proof (relation "measure (\<lambda>(aliases, pkgName, i, alias).
         if containsValue aliases alias
         then Suc (card {j. i \<le> j \<and> containsValue aliases (pkgName @ itoa j)}) else 0)")
  show "wf (measure (\<lambda>(aliases, pkgName, i, alias).
         if containsValue aliases alias
         then Suc (card {j. i \<le> j \<and> containsValue aliases (pkgName @ itoa j)}) else 0))"
    by simp
next
  fix aliases :: aliasMap and pkgName :: string and i :: nat and cur :: string
  assume used: "containsValue aliases cur"
  let ?S = "\<lambda>i. {j. i \<le> j \<and> containsValue aliases (pkgName @ itoa j)}"
  have fin: "finite (?S i)"
    by (rule finite_subset [OF _ finite_suffixes [of aliases pkgName]]) auto
  have "containsValue aliases (pkgName @ itoa i) \<Longrightarrow> card (?S (Suc i)) < card (?S i)"
  proof -
    assume c: "containsValue aliases (pkgName @ itoa i)"
    have "i \<in> ?S i" "i \<notin> ?S (Suc i)" "?S (Suc i) \<subseteq> ?S i" using c by auto
    then have "?S (Suc i) \<subset> ?S i" by blast
    then show ?thesis using fin by (rule psubset_card_mono [rotated])
  qed
  with used show "((aliases, pkgName, Suc i, pkgName @ itoa i), (aliases, pkgName, i, cur))
        \<in> measure (\<lambda>(aliases, pkgName, i, alias).
         if containsValue aliases alias
         then Suc (card {j. i \<le> j \<and> containsValue aliases (pkgName @ itoa j)}) else 0)"
    by simp
qed

declare aliasLoop.simps [simp del]

definition makePackageAlias :: "aliasMap \<Rightarrow> string \<Rightarrow> string" where
  "makePackageAlias aliases pkgName = aliasLoop aliases pkgName 0 pkgName"

definition addAlias :: "aliasMap \<Rightarrow> string \<Rightarrow> string \<Rightarrow> aliasMap" where
  "addAlias aliases importPath pkgName =
     (case map_of aliases importPath of
        Some alias \<Rightarrow> aliases
      | None \<Rightarrow> AList.update importPath (makePackageAlias aliases pkgName) aliases)"

text \<open>
  The loops of \<open>calcImportAliases\<close>, innermost first: over the arguments of a method
  (an argument without import path is skipped), over the methods of a type, over the
  types of one list, over the two lists (controllers, then test suites), and at the
  end over the init import paths, which get the alias \<open>_\<close> unless they have one.
\<close>

fun argAliases :: "aliasMap \<Rightarrow> MethodArg list \<Rightarrow> aliasMap" where
  "argAliases aliases [] = aliases"
| "argAliases aliases (methArg # rest) =
     (if arg_ImportPath methArg = [] then argAliases aliases rest
      else argAliases (addAlias aliases (arg_ImportPath methArg) (arg_PkgName methArg)) rest)"

fun methodAliases :: "aliasMap \<Rightarrow> MethodSpec list \<Rightarrow> aliasMap" where
  "methodAliases aliases [] = aliases"
| "methodAliases aliases (methSpec # rest) =
     methodAliases (argAliases aliases (Args methSpec)) rest"

fun specAliases :: "aliasMap \<Rightarrow> TypeInfo list \<Rightarrow> aliasMap" where
  "specAliases aliases [] = aliases"
| "specAliases aliases (spec # rest) =
     specAliases
       (methodAliases (addAlias aliases (ImportPath spec) (PackageName spec)) (MethodSpecs spec))
       rest"

fun typeArrayAliases :: "aliasMap \<Rightarrow> TypeInfo list list \<Rightarrow> aliasMap" where
  "typeArrayAliases aliases [] = aliases"
| "typeArrayAliases aliases (specs # rest) = typeArrayAliases (specAliases aliases specs) rest"

fun initAliases :: "aliasMap \<Rightarrow> string list \<Rightarrow> aliasMap" where
  "initAliases aliases [] = aliases"
| "initAliases aliases (importPath # rest) =
     (case map_of aliases importPath of
        None \<Rightarrow> initAliases (AList.update importPath ''_'' aliases) rest
      | Some a \<Rightarrow> initAliases aliases rest)"

definition calcImportAliases :: "SourceInfo \<Rightarrow> aliasMap" where
  "calcImportAliases src =
     initAliases (typeArrayAliases [] [ControllerSpecs src, TestSuites src])
       (InitImportPaths src)"

text \<open>
  The calls of \<open>addAlias\<close> that the nested loops make, in order, as pairs of import
  path and package name: for each controller and then each test suite, the type's own
  package, then the package of every argument with a non-empty import path. The
  loops are a left fold of \<open>addAlias\<close> over this list (\<open>calcImportAliases_requests\<close>),
  and \<open>tableAfter\<close> is the table after a list of calls.
\<close>

definition argRequests :: "MethodArg list \<Rightarrow> (string \<times> string) list" where
  "argRequests args =
     map (\<lambda>a. (arg_ImportPath a, arg_PkgName a)) (filter (\<lambda>a. arg_ImportPath a \<noteq> []) args)"

definition specRequests :: "TypeInfo \<Rightarrow> (string \<times> string) list" where
  "specRequests spec =
     (ImportPath spec, PackageName spec) #
     concat (map (\<lambda>m. argRequests (Args m)) (MethodSpecs spec))"

definition aliasRequests :: "SourceInfo \<Rightarrow> (string \<times> string) list" where
  "aliasRequests src = concat (map specRequests (ControllerSpecs src @ TestSuites src))"

definition addReq :: "aliasMap \<Rightarrow> string \<times> string \<Rightarrow> aliasMap" where
  "addReq aliases r = addAlias aliases (fst r) (snd r)"

definition tableAfter :: "(string \<times> string) list \<Rightarrow> aliasMap" where
  "tableAfter reqs = foldl addReq [] reqs"

lemma addReq_pair: "addReq al (p, n) = addAlias al p n"
  by (simp add: addReq_def)

lemma argAliases_foldl: "argAliases al args = foldl addReq al (argRequests args)"
  by (induction al args rule: argAliases.induct) (simp_all add: argRequests_def addReq_pair)

lemma methodAliases_foldl:
  "methodAliases al ms = foldl addReq al (concat (map (\<lambda>m. argRequests (Args m)) ms))"
  by (induction al ms rule: methodAliases.induct) (simp_all add: argAliases_foldl)

lemma specAliases_foldl: "specAliases al specs = foldl addReq al (concat (map specRequests specs))"
  by (induction al specs rule: specAliases.induct)
     (simp_all add: methodAliases_foldl specRequests_def addReq_pair)

lemma typeArrayAliases_foldl:
  "typeArrayAliases al arrays = foldl addReq al (concat (map specRequests (concat arrays)))"
  by (induction al arrays rule: typeArrayAliases.induct) (simp_all add: specAliases_foldl)

lemma calcImportAliases_requests:
  "calcImportAliases src = initAliases (tableAfter (aliasRequests src)) (InitImportPaths src)"
  by (simp add: calcImportAliases_def typeArrayAliases_foldl tableAfter_def aliasRequests_def)

subsection \<open>The scan for an unused alias\<close>

lemma aliasLoop_unused: "\<not> containsValue al (aliasLoop al n i a)"
  by (induction al n i a rule: aliasLoop.induct) (subst aliasLoop.simps, simp)

lemma aliasLoop_fresh: "\<not> containsValue al a \<Longrightarrow> aliasLoop al n i a = a"
  by (subst aliasLoop.simps) simp

lemma aliasLoop_scan:
  "containsValue al a \<Longrightarrow> \<forall>j<i. containsValue al (n @ itoa j) \<Longrightarrow>
   \<exists>k. aliasLoop al n i a = n @ itoa k \<and> \<not> containsValue al (n @ itoa k) \<and>
       (\<forall>j<k. containsValue al (n @ itoa j))"
proof (induction al n i a rule: aliasLoop.induct)
  case (1 aliases pkgName i cur)
  have unfold: "aliasLoop aliases pkgName i cur = aliasLoop aliases pkgName (Suc i) (pkgName @ itoa i)"
    using "1.prems"(1) by (subst aliasLoop.simps) simp
  show ?case
  proof (cases "containsValue aliases (pkgName @ itoa i)")
    case True
    have "\<forall>j<Suc i. containsValue aliases (pkgName @ itoa j)"
      using "1.prems"(2) True by (auto simp: less_Suc_eq)
    from "1.IH" [OF "1.prems"(1) True this] show ?thesis by (simp add: unfold)
  next
    case False
    then have "aliasLoop aliases pkgName i cur = pkgName @ itoa i"
      by (simp add: unfold aliasLoop_fresh)
    with False "1.prems"(2) show ?thesis by blast
  qed
qed

lemma makePackageAlias_unused: "\<not> containsValue al (makePackageAlias al n)"
  by (simp add: makePackageAlias_def aliasLoop_unused)

lemma makePackageAlias_eq:
  "makePackageAlias al n =
     (if containsValue al n then n @ itoa (LEAST k. \<not> containsValue al (n @ itoa k)) else n)"
proof (cases "containsValue al n")
  case False
  then show ?thesis by (simp add: makePackageAlias_def aliasLoop_fresh)
next
  case True
  from aliasLoop_scan [OF True, of 0 n] obtain k where
    k: "aliasLoop al n 0 n = n @ itoa k" "\<not> containsValue al (n @ itoa k)"
       "\<forall>j<k. containsValue al (n @ itoa j)" by auto
  have "(LEAST k. \<not> containsValue al (n @ itoa k)) = k"
    using k(2,3) by (intro Least_equality) (auto simp: not_less [symmetric])
  with True k(1) show ?thesis by (simp add: makePackageAlias_def)
qed

subsection \<open>The table stays free of duplicates while addAlias fills it\<close>

lemma update_absent: "map_of al k = None \<Longrightarrow> AList.update k v al = al @ [(k, v)]"
  by (induction al) (auto split: if_splits)

lemma addAlias_present: "map_of al p = Some a \<Longrightarrow> addAlias al p n = al"
  by (simp add: addAlias_def)

lemma addAlias_absent:
  "map_of al p = None \<Longrightarrow> addAlias al p n = al @ [(p, makePackageAlias al n)]"
  by (simp add: addAlias_def update_absent)

definition wellFormed :: "aliasMap \<Rightarrow> bool" where
  "wellFormed al \<longleftrightarrow> distinct (map fst al) \<and> distinct (map snd al)"

lemma addAlias_wellFormed: "wellFormed al \<Longrightarrow> wellFormed (addAlias al p n)"
proof (cases "map_of al p")
  case None
  assume w: "wellFormed al"
  have "p \<notin> fst ` set al" using None by (simp add: map_of_eq_None_iff)
  moreover have "makePackageAlias al n \<notin> snd ` set al"
    using makePackageAlias_unused [of al n] by (simp add: containsValue_iff)
  ultimately show ?thesis using w by (simp add: addAlias_absent [OF None] wellFormed_def)
next
  case (Some a)
  assume "wellFormed al"
  then show ?thesis by (simp add: addAlias_present [OF Some])
qed

lemma foldl_addReq_wellFormed: "wellFormed al \<Longrightarrow> wellFormed (foldl addReq al reqs)"
  by (induction reqs arbitrary: al) (simp_all add: addReq_def addAlias_wellFormed)

lemma tableAfter_wellFormed: "wellFormed (tableAfter reqs)"
proof -
  have "wellFormed []" by (simp add: wellFormed_def)
  then show ?thesis unfolding tableAfter_def by (rule foldl_addReq_wellFormed)
qed

lemma addAlias_keeps: "map_of al q = Some a \<Longrightarrow> map_of (addAlias al p n) q = Some a"
  by (cases "map_of al p") (auto simp: addAlias_absent addAlias_present)

lemma foldl_addReq_keeps:
  "map_of al q = Some a \<Longrightarrow> map_of (foldl addReq al reqs) q = Some a"
  by (induction reqs arbitrary: al) (simp_all add: addReq_def addAlias_keeps)

lemma addAlias_keys: "fst ` set (addAlias al p n) = insert p (fst ` set al)"
proof (cases "map_of al p")
  case None
  then show ?thesis by (simp add: addAlias_absent)
next
  case (Some a)
  then have "p \<in> fst ` set al" by (metis domI dom_map_of_conv_image_fst)
  with Some show ?thesis by (auto simp: addAlias_present)
qed

lemma foldl_addReq_keys:
  "fst ` set (foldl addReq al reqs) = fst ` set al \<union> fst ` set reqs"
  by (induction reqs arbitrary: al) (auto simp: addReq_def addAlias_keys)

lemma tableAfter_keys: "fst ` set (tableAfter reqs) = fst ` set reqs"
  by (simp add: tableAfter_def foldl_addReq_keys)


lemma initAliases_keeps:
  "map_of al q = Some a \<Longrightarrow> map_of (initAliases al ps) q = Some a"
proof (induction ps arbitrary: al)
  case Nil
  then show ?case by simp
next
  case (Cons p ps)
  show ?case
  proof (cases "map_of al p")
    case None
    with Cons.prems have "q \<noteq> p" by auto
    with Cons.prems have "map_of (AList.update p ''_'' al) q = Some a"
      by (simp add: update_conv')
    from Cons.IH [OF this] None show ?thesis by simp
  next
    case (Some b)
    with Cons.IH [OF Cons.prems] show ?thesis by simp
  qed
qed

lemma initAliases_entries:
  "map_of (initAliases al ps) q = Some a \<Longrightarrow>
   map_of al q = Some a \<or> (q \<in> set ps \<and> a = ''_'')"
proof (induction ps arbitrary: al)
  case Nil
  then show ?case by simp
next
  case (Cons p ps)
  show ?case
  proof (cases "map_of al p")
    case None
    with Cons.prems have "map_of (initAliases (AList.update p ''_'' al) ps) q = Some a" by simp
    from Cons.IH [OF this] show ?thesis
      by (auto simp: update_conv' split: if_splits)
  next
    case (Some b)
    with Cons.prems have "map_of (initAliases al ps) q = Some a" by simp
    from Cons.IH [OF this] show ?thesis by auto
  qed
qed

lemma initAliases_discard:
  "q \<in> set ps \<Longrightarrow> map_of al q = None \<Longrightarrow> map_of (initAliases al ps) q = Some ''_''"
proof (induction ps arbitrary: al)
  case Nil
  then show ?case by simp
next
  case (Cons p ps)
  show ?case
  proof (cases "p = q")
    case True
    have "map_of (AList.update q ''_'' al) q = Some ''_''" by (simp add: update_conv')
    then have "map_of (initAliases (AList.update q ''_'' al) ps) q = Some ''_''"
      by (rule initAliases_keeps)
    with True Cons.prems(2) show ?thesis by simp
  next
    case False
    with Cons.prems(1) have q: "q \<in> set ps" by simp
    show ?thesis
    proof (cases "map_of al p")
      case None
      have "map_of (AList.update p ''_'' al) q = None"
        using False Cons.prems(2) by (simp add: update_conv')
      from Cons.IH [OF q this] None show ?thesis by simp
    next
      case (Some b)
      with Cons.IH [OF q Cons.prems(2)] show ?thesis by simp
    qed
  qed
qed

lemma wellFormed_alias_inj:
  "wellFormed al \<Longrightarrow> map_of al p = Some a \<Longrightarrow> map_of al q = Some a \<Longrightarrow> p = q"
proof -
  assume w: "wellFormed al" and p: "map_of al p = Some a" and q: "map_of al q = Some a"
  from p q have "(p, a) \<in> set al" "(q, a) \<in> set al" by (auto dest: map_of_SomeD)
  moreover from w have "inj_on snd (set al)" by (simp add: wellFormed_def distinct_map)
  ultimately have "(p, a) = (q, a)" by (intro inj_onD [of snd "set al"]) simp_all
  then show "p = q" by simp
qed

lemma key_has_alias: "p \<in> fst ` set al \<Longrightarrow> \<exists>a. map_of al p = Some a"
  by (metis domD dom_map_of_conv_image_fst)

lemma first_request_alias:
  assumes i: "i < length reqs"
    and first: "fst (reqs ! i) \<notin> fst ` set (take i reqs)"
  shows "map_of (tableAfter reqs) (fst (reqs ! i)) =
           Some (makePackageAlias (tableAfter (take i reqs)) (snd (reqs ! i)))"
proof -
  let ?T = "tableAfter (take i reqs)"
  let ?p = "fst (reqs ! i)" and ?n = "snd (reqs ! i)"
  have split: "reqs = take i reqs @ (?p, ?n) # drop (Suc i) reqs"
    using i by (simp add: id_take_nth_drop)
  have "map_of ?T ?p = None"
    using first by (simp add: map_of_eq_None_iff tableAfter_keys)
  then have "map_of (addReq ?T (?p, ?n)) ?p = Some (makePackageAlias ?T ?n)"
    by (simp add: addReq_def addAlias_def update_conv')
  then have "map_of (foldl addReq (addReq ?T (?p, ?n)) (drop (Suc i) reqs)) ?p =
      Some (makePackageAlias ?T ?n)"
    by (rule foldl_addReq_keeps)
  moreover have "tableAfter reqs = foldl addReq (addReq ?T (?p, ?n)) (drop (Suc i) reqs)"
    by (subst split) (simp add: tableAfter_def)
  ultimately show ?thesis by simp
qed

text \<open>
  Claim C1, as amended. The claim says that all aliases of the table are distinct and
  that the first occurrence of a package name always keeps the unsuffixed name. The
  table is built in two phases, and the code gives: (1) two different import paths
  that controllers, test suites or their arguments reference have different aliases;
  (2) every entry of the table is such a path, or an init import path with the
  discard alias \<open>_\<close>; (3) at the first call for an import path, with \<open>T\<close> the table
  of the calls before it and \<open>n\<close> its package name, the path gets \<open>n\<close> itself when no
  entry of \<open>T\<close> has alias \<open>n\<close>, and otherwise \<open>n\<close> followed by the least number
  0, 1, 2, ... that makes an alias no entry of \<open>T\<close> has; (4) an init import path that
  nothing else references gets \<open>_\<close>. Init paths share the alias \<open>_\<close>, so aliases
  are unique only among the entries of (1).
\<close>

theorem calcImportAliases_table:
  "(p \<in> fst ` set (aliasRequests src) \<and> q \<in> fst ` set (aliasRequests src) \<and> p \<noteq> q \<longrightarrow>
      (\<exists>a b. map_of (calcImportAliases src) p = Some a \<and>
             map_of (calcImportAliases src) q = Some b \<and> a \<noteq> b))
   \<and> (map_of (calcImportAliases src) r = Some c \<longrightarrow>
        r \<in> fst ` set (aliasRequests src) \<or> (r \<in> set (InitImportPaths src) \<and> c = ''_''))
   \<and> (i < length (aliasRequests src) \<and>
        fst (aliasRequests src ! i) \<notin> fst ` set (take i (aliasRequests src)) \<longrightarrow>
        map_of (calcImportAliases src) (fst (aliasRequests src ! i)) =
          Some (let T = tableAfter (take i (aliasRequests src));
                    n = snd (aliasRequests src ! i)
                in if containsValue T n
                   then n @ itoa (LEAST k. \<not> containsValue T (n @ itoa k)) else n))
   \<and> (s \<in> set (InitImportPaths src) \<and> s \<notin> fst ` set (aliasRequests src) \<longrightarrow>
        map_of (calcImportAliases src) s = Some ''_'')"
proof (intro conjI impI)
  let ?reqs = "aliasRequests src" and ?t = "calcImportAliases src"
  let ?T0 = "tableAfter (aliasRequests src)"
  have t: "?t = initAliases ?T0 (InitImportPaths src)" by (rule calcImportAliases_requests)
  {
    assume h: "p \<in> fst ` set ?reqs \<and> q \<in> fst ` set ?reqs \<and> p \<noteq> q"
    then obtain a b where a: "map_of ?T0 p = Some a" and b: "map_of ?T0 q = Some b"
      using key_has_alias [of p ?T0] key_has_alias [of q ?T0] by (auto simp: tableAfter_keys)
    have "a \<noteq> b"
      using wellFormed_alias_inj [OF tableAfter_wellFormed, of ?reqs p a q] a b h by auto
    moreover have "map_of ?t p = Some a" "map_of ?t q = Some b"
      using a b by (simp_all add: t initAliases_keeps)
    ultimately show "\<exists>a b. map_of ?t p = Some a \<and> map_of ?t q = Some b \<and> a \<noteq> b" by blast
  }
  {
    assume "map_of ?t r = Some c"
    then have "map_of ?T0 r = Some c \<or> (r \<in> set (InitImportPaths src) \<and> c = ''_'')"
      unfolding t by (rule initAliases_entries)
    moreover have "map_of ?T0 r = Some c \<Longrightarrow> r \<in> fst ` set ?reqs"
      by (metis domI dom_map_of_conv_image_fst tableAfter_keys)
    ultimately show "r \<in> fst ` set ?reqs \<or> (r \<in> set (InitImportPaths src) \<and> c = ''_'')"
      by blast
  }
  {
    assume h: "i < length ?reqs \<and> fst (?reqs ! i) \<notin> fst ` set (take i ?reqs)"
    then have "map_of ?T0 (fst (?reqs ! i)) =
        Some (makePackageAlias (tableAfter (take i ?reqs)) (snd (?reqs ! i)))"
      by (intro first_request_alias) simp_all
    then have "map_of ?t (fst (?reqs ! i)) =
        Some (makePackageAlias (tableAfter (take i ?reqs)) (snd (?reqs ! i)))"
      unfolding t by (rule initAliases_keeps)
    then show "map_of ?t (fst (?reqs ! i)) =
          Some (let T = tableAfter (take i ?reqs); n = snd (?reqs ! i)
                in if containsValue T n
                   then n @ itoa (LEAST k. \<not> containsValue T (n @ itoa k)) else n)"
      by (simp add: makePackageAlias_eq Let_def)
  }
  {
    assume h: "s \<in> set (InitImportPaths src) \<and> s \<notin> fst ` set ?reqs"
    then have "map_of ?T0 s = None" by (simp add: map_of_eq_None_iff tableAfter_keys)
    with h show "map_of ?t s = Some ''_''" by (simp add: t initAliases_discard)
  }
qed

text \<open>
  Two inputs on which the claim as stated fails. With two init import paths and no
  controller, both entries carry the alias \<open>_\<close>. With packages \<open>foo\<close>, \<open>foo\<close> and
  \<open>foo0\<close> in this order, the second path takes \<open>foo0\<close>, so the first (and only)
  occurrence of the package name \<open>foo0\<close> does not keep its unsuffixed name.
\<close>

definition src_two_inits :: SourceInfo where
  "src_two_inits =
     \<lparr>ControllerSpecs = [], TestSuites = [], ValidationKeys = [],
      InitImportPaths = [''github.com/lib/pq'', ''github.com/mattn/go-sqlite3'']\<rparr>"

definition src_numbered :: SourceInfo where
  "src_numbered =
     \<lparr>ControllerSpecs =
        [\<lparr>ImportPath = ''a/foo'', PackageName = ''foo'', MethodSpecs = []\<rparr>,
         \<lparr>ImportPath = ''b/foo'', PackageName = ''foo'', MethodSpecs = []\<rparr>,
         \<lparr>ImportPath = ''c/foo0'', PackageName = ''foo0'', MethodSpecs = []\<rparr>],
      TestSuites = [], ValidationKeys = [], InitImportPaths = []\<rparr>"

theorem calcImportAliases_not_unique:
  "calcImportAliases src_two_inits =
     [(''github.com/lib/pq'', ''_''), (''github.com/mattn/go-sqlite3'', ''_'')]
   \<and> calcImportAliases src_numbered =
     [(''a/foo'', ''foo''), (''b/foo'', ''foo0''), (''c/foo0'', ''foo00'')]"
  by (simp add: calcImportAliases_def src_two_inits_def src_numbered_def addAlias_def
      makePackageAlias_def aliasLoop.simps itoa.simps digitChar_def)

text \<open>
  An application with two packages named \<open>controllers\<close>, an action argument from a
  models package, a test suite, and a database driver imported for its side effects.
\<close>

definition src_sample :: SourceInfo where
  "src_sample =
     \<lparr>ControllerSpecs =
        [\<lparr>ImportPath = ''shop/app/controllers'', PackageName = ''controllers'',
          MethodSpecs =
            [\<lparr>Args = [\<lparr>arg_ImportPath = [], arg_PkgName = []\<rparr>,
                      \<lparr>arg_ImportPath = ''shop/app/models'', arg_PkgName = ''models''\<rparr>]\<rparr>]\<rparr>,
         \<lparr>ImportPath = ''shop/admin/app/controllers'', PackageName = ''controllers'',
          MethodSpecs = []\<rparr>],
      TestSuites =
        [\<lparr>ImportPath = ''shop/tests'', PackageName = ''tests'', MethodSpecs = []\<rparr>],
      ValidationKeys = [],
      InitImportPaths = [''github.com/lib/pq'', ''shop/app/models'']\<rparr>"

lemma src_sample_requests:
  "aliasRequests src_sample =
     [(''shop/app/controllers'', ''controllers''), (''shop/app/models'', ''models''),
      (''shop/admin/app/controllers'', ''controllers''), (''shop/tests'', ''tests'')]"
  by (simp add: aliasRequests_def specRequests_def argRequests_def src_sample_def)

lemma src_sample_before_third:
  "tableAfter [(''shop/app/controllers'', ''controllers''), (''shop/app/models'', ''models'')] =
     [(''shop/app/controllers'', ''controllers''), (''shop/app/models'', ''models'')]"
  by (simp add: tableAfter_def addReq_def addAlias_def makePackageAlias_def aliasLoop.simps)

lemma src_sample_least:
  "(LEAST k. \<not> containsValue
        [(''shop/app/controllers'', ''controllers''), (''shop/app/models'', ''models'')]
        (''controllers'' @ itoa k)) = 0"
  by (rule Least_equality) (simp_all add: itoa.simps digitChar_def)

theorem calcImportAliases_table_witness:
  "(\<exists>a b. map_of (calcImportAliases src_sample) ''shop/app/controllers'' = Some a \<and>
          map_of (calcImportAliases src_sample) ''shop/admin/app/controllers'' = Some b \<and>
          a \<noteq> b)
   \<and> map_of (calcImportAliases src_sample) ''shop/admin/app/controllers'' = Some ''controllers0''
   \<and> map_of (calcImportAliases src_sample) ''github.com/lib/pq'' = Some ''_''"
proof -
  note t = calcImportAliases_table
    [of "''shop/app/controllers''" src_sample "''shop/admin/app/controllers''"
        "''github.com/lib/pq''" "''_''" 2 "''github.com/lib/pq''"]
  have inits: "InitImportPaths src_sample = [''github.com/lib/pq'', ''shop/app/models'']"
    by (simp add: src_sample_def)
  from t [THEN conjunct1]
  have "\<exists>a b. map_of (calcImportAliases src_sample) ''shop/app/controllers'' = Some a \<and>
          map_of (calcImportAliases src_sample) ''shop/admin/app/controllers'' = Some b \<and>
          a \<noteq> b"
    by (simp add: src_sample_requests)
  moreover from t [THEN conjunct2, THEN conjunct2, THEN conjunct1]
  have "map_of (calcImportAliases src_sample) ''shop/admin/app/controllers'' = Some ''controllers0''"
    by (simp add: src_sample_requests src_sample_before_third src_sample_least Let_def
        itoa.simps digitChar_def)
  moreover from t [THEN conjunct2, THEN conjunct2, THEN conjunct2]
  have "map_of (calcImportAliases src_sample) ''github.com/lib/pq'' = Some ''_''"
    by (simp add: src_sample_requests inits)
  ultimately show ?thesis by blast
qed

section \<open>Compile errors: newCompileError\<close>

text \<open>
  The two patterns of \<open>newCompileError\<close> are matched by functions written for them,
  over bytes. Go's \<open>regexp\<close> returns the leftmost match and, among the matches that
  start there, the one a backtracking search prefers; with \<open>(?m)\<close> the anchor \<open>^\<close>
  holds at the start of the text and after every newline, \<open>$\<close> at the end of the
  text and before every newline; \<open>.\<close> matches every character but a newline, while a
  negated class such as \<open>[^:#]\<close> matches a newline too; \<open>\d\<close> is \<open>[0-9]\<close> and
  \<open>\s\<close> is \<open>[\t\n\f\r ]\<close>. All characters the patterns name are ASCII, so a
  multi-byte UTF-8 sequence is consumed whole by the classes that consume its first
  byte, and matching bytes gives the same groups.
\<close>

definition isDigit :: "char \<Rightarrow> bool" where
  "isDigit c = (c \<in> set ''0123456789'')"

definition isSpaceClass :: "char \<Rightarrow> bool" where
  "isSpaceClass c = (c \<in> {CHR 0x09, CHR 0x0A, CHR 0x0C, CHR 0x0D, CHR 0x20})"

definition restOfLine :: "string \<Rightarrow> string" where
  "restOfLine s = takeWhile (\<lambda>c. c \<noteq> newline) s"

text \<open>
  The search for the leftmost match of an anchored pattern: \<open>m\<close> matches at a line
  start and is tried at the start of the text and then after each newline in turn.
\<close>

function searchLines :: "(string \<Rightarrow> 'a option) \<Rightarrow> string \<Rightarrow> 'a option" where
  "searchLines m s =
     (case m s of
        Some r \<Rightarrow> Some r
      | None \<Rightarrow>
          (case dropWhile (\<lambda>c. c \<noteq> newline) s of
             [] \<Rightarrow> None
           | c # rest \<Rightarrow> searchLines m rest))"
  by pat_completeness auto
termination
proof (relation "measure (\<lambda>(m, s). length s)")
  show "wf (measure (\<lambda>(m, s). length s))" by simp
next
  fix m :: "string \<Rightarrow> 'a option" and s :: string and c :: char and rest :: string
  assume "dropWhile (\<lambda>c. c \<noteq> newline) s = c # rest"
  then have "length (c # rest) \<le> length s"
    by (metis length_dropWhile_le)
  then show "((m, rest), (m, s)) \<in> measure (\<lambda>(m, s). length s)" by simp
qed

declare searchLines.simps [simp del]

text \<open>
  The first pattern, \<open>(?m)^([^:#]+):(\d+):(\d+:)? (.*)$\<close>, at a line start. Each greedy
  group takes its longest run: a shorter run would be followed by a character of the
  same class, never by the colon (or space) the pattern wants next. The result is the
  list of submatches, the whole match first; a group that took no part is empty.
\<close>

definition matchPrimary :: "string \<Rightarrow> string list option" where
  "matchPrimary s =
     (let g1 = takeWhile (\<lambda>c. c \<noteq> CHR '':'' \<and> c \<noteq> CHR ''#'') s;
          r1 = dropWhile (\<lambda>c. c \<noteq> CHR '':'' \<and> c \<noteq> CHR ''#'') s
      in if g1 = [] then None
         else
           (case r1 of
              [] \<Rightarrow> None
            | c1 # r2 \<Rightarrow>
                if c1 \<noteq> CHR '':'' then None
                else
                  (let g2 = takeWhile isDigit r2; r3 = dropWhile isDigit r2
                   in if g2 = [] then None
                      else
                        (case r3 of
                           [] \<Rightarrow> None
                         | c2 # r4 \<Rightarrow>
                             if c2 \<noteq> CHR '':'' then None
                             else
                               (let d = takeWhile isDigit r4; r5 = dropWhile isDigit r4
                                in case (if d = [] then None
                                         else (case r5 of
                                                 c3 # c4 # r6 \<Rightarrow>
                                                   if c3 = CHR '':'' \<and> c4 = CHR '' ''
                                                   then Some (d @ '':'', r6) else None
                                               | _ \<Rightarrow> None)) of
                                     Some (g3, r6) \<Rightarrow>
                                       Some [g1 @ '':'' @ g2 @ '':'' @ g3 @ '' '' @ restOfLine r6,
                                             g1, g2, g3, restOfLine r6]
                                   | None \<Rightarrow>
                                       (case r4 of
                                          [] \<Rightarrow> None
                                        | c5 # r7 \<Rightarrow>
                                            if c5 = CHR '' ''
                                            then Some [g1 @ '':'' @ g2 @ '': '' @ restOfLine r7,
                                                       g1, g2, [], restOfLine r7]
                                            else None))))))"

text \<open>
  The second pattern, \<open>(?m)^(.*?)\:(\d+)\:\s(.*?)$\<close>, at a line start. The lazy first
  group grows one character at a time (never over a newline) until the rest,
  \<open>fallbackTail\<close>, matches; the lazy last group then runs to the end of its line.
\<close>

definition fallbackTail :: "string \<Rightarrow> (string \<times> char \<times> string) option" where
  "fallbackTail s =
     (case s of
        [] \<Rightarrow> None
      | c1 # r2 \<Rightarrow>
          if c1 \<noteq> CHR '':'' then None
          else
            (let g2 = takeWhile isDigit r2; r3 = dropWhile isDigit r2
             in if g2 = [] then None
                else
                  (case r3 of
                     c2 # w # r5 \<Rightarrow>
                       if c2 = CHR '':'' \<and> isSpaceClass w then Some (g2, w, restOfLine r5)
                       else None
                   | _ \<Rightarrow> None)))"

fun matchFallbackFrom :: "string \<Rightarrow> string \<Rightarrow> string list option" where
  "matchFallbackFrom acc s =
     (case fallbackTail s of
        Some (g2, w, g3) \<Rightarrow> Some [rev acc @ '':'' @ g2 @ '':'' @ [w] @ g3, rev acc, g2, g3]
      | None \<Rightarrow>
          (case s of
             [] \<Rightarrow> None
           | c # cs \<Rightarrow> if c = newline then None else matchFallbackFrom (c # acc) cs))"

declare matchFallbackFrom.simps [simp del]

text \<open>
  \<open>strconv.Atoi\<close> on the second submatch, a non-empty run of digits: its decimal
  value, or the largest \<open>int\<close> (64 bits) when the value does not fit; the error is
  dropped by the caller. On any other string the value here is 0.
\<close>

definition digitValue :: "char \<Rightarrow> int" where
  "digitValue c = int (length (takeWhile (\<lambda>d. d \<noteq> c) ''0123456789''))"

definition maxInt :: int where
  "maxInt = 2 ^ 63 - 1"

definition strconv_Atoi :: "string \<Rightarrow> int" where
  "strconv_Atoi s =
     (if s \<noteq> [] \<and> list_all isDigit s
      then min (foldl (\<lambda>v c. 10 * v + digitValue c) 0 s) maxInt
      else 0)"

text \<open>
  What \<open>newCompileError\<close> reads from its surroundings: the configuration, the
  absolute form of a path, and the lines of a file (or the text of the read error).
  \<open>SetLink\<close> is a method of the framework's error type; it stores a link made from
  the template and the error in the field \<open>Link\<close>, and \<open>linkText\<close> stands for that
  text.
\<close>

record CompileEnv =
  Config_StringDefault :: "string \<Rightarrow> string \<Rightarrow> string"
  filepath_Abs :: "string \<Rightarrow> string"
  ReadLines :: "string \<Rightarrow> string + string list"
  linkText :: "string \<Rightarrow> Error \<Rightarrow> string"

definition SetLink :: "CompileEnv \<Rightarrow> Error \<Rightarrow> string \<Rightarrow> Error" where
  "SetLink env e errorLink = e\<lparr>Link := linkText env errorLink e\<rparr>"

text \<open>
  The submatches \<open>newCompileError\<close> works with: those of the first pattern, or those of
  the second with its third submatch appended, so that index 4 is the message in both
  cases.
\<close>

definition findErrorMatch :: "string \<Rightarrow> string list option" where
  "findErrorMatch out =
     (case searchLines matchPrimary out of
        Some errorMatch \<Rightarrow> Some errorMatch
      | None \<Rightarrow>
          (case searchLines (matchFallbackFrom []) out of
             None \<Rightarrow> None
           | Some errorMatch \<Rightarrow> Some (errorMatch @ [errorMatch ! 3])))"

definition newCompileError :: "CompileEnv \<Rightarrow> string \<Rightarrow> Error" where
  "newCompileError env out =
     (case findErrorMatch out of
        None \<Rightarrow>
          emptyError\<lparr>SourceType := ''Go code'', Title := ''Go Compilation Error'',
            Description := ''See console for build error.''\<rparr>
      | Some errorMatch \<Rightarrow>
          (let relFilename = errorMatch ! 1;
               absFilename = filepath_Abs env relFilename;
               line = strconv_Atoi (errorMatch ! 2);
               description = errorMatch ! 4;
               compileError =
                 emptyError\<lparr>SourceType := ''Go code'', Title := ''Go Compilation Error'',
                   Path := relFilename, Description := description, Line := line\<rparr>;
               errorLink = Config_StringDefault env ''error.link'' [];
               compileError =
                 (if errorLink \<noteq> [] then SetLink env compileError errorLink else compileError)
           in case ReadLines env absFilename of
                Inl err \<Rightarrow> compileError\<lparr>MetaError := absFilename @ '': '' @ err\<rparr>
              | Inr fileStr \<Rightarrow> compileError\<lparr>SourceLines := fileStr\<rparr>))"

subsection \<open>Properties of the two patterns\<close>

lemma span_run:
  "(\<forall>c\<in>set xs. P c) \<Longrightarrow> ys = [] \<or> \<not> P (hd ys) \<Longrightarrow>
   takeWhile P (xs @ ys) = xs \<and> dropWhile P (xs @ ys) = ys"
  by (induction xs) (auto simp: takeWhile_eq_Nil_iff dropWhile_eq_self_iff)

lemma not_newline_run:
  "newline \<notin> set l \<Longrightarrow> ys = [] \<or> hd ys = newline \<Longrightarrow>
   takeWhile (\<lambda>c. c \<noteq> newline) (l @ ys) = l \<and> dropWhile (\<lambda>c. c \<noteq> newline) (l @ ys) = ys"
proof -
  assume l: "newline \<notin> set l" and ys: "ys = [] \<or> hd ys = newline"
  from l have a: "\<forall>c\<in>set l. c \<noteq> newline" by auto
  from ys have b: "ys = [] \<or> \<not> hd ys \<noteq> newline" by simp
  from a b show ?thesis by (rule span_run)
qed

lemma restOfLine_run:
  "newline \<notin> set msg \<Longrightarrow> rest = [] \<or> hd rest = newline \<Longrightarrow> restOfLine (msg @ rest) = msg"
  by (simp add: restOfLine_def not_newline_run)

lemma colon_not_digit: "\<not> isDigit (CHR '':'')" "\<not> isDigit (CHR '' '')"
  by (simp_all add: isDigit_def)

lemma digits_run:
  "list_all isDigit ds \<Longrightarrow> \<not> isDigit c \<Longrightarrow>
   takeWhile isDigit (ds @ c # s) = ds \<and> dropWhile isDigit (ds @ c # s) = c # s"
  using span_run [of ds isDigit "c # s"] by (simp add: list_all_iff)

lemma matchPrimary_column:
  assumes "path \<noteq> []" "\<forall>c\<in>set path. c \<noteq> CHR '':'' \<and> c \<noteq> CHR ''#''"
    and "ln \<noteq> []" "list_all isDigit ln" "col \<noteq> []" "list_all isDigit col"
    and "newline \<notin> set msg" "rest = [] \<or> hd rest = newline"
  shows "matchPrimary (path @ CHR '':'' # ln @ CHR '':'' # col @ CHR '':'' # CHR '' '' # msg @ rest) =
         Some [path @ '':'' @ ln @ '':'' @ (col @ '':'') @ '' '' @ msg, path, ln, col @ '':'', msg]"
proof -
  let ?P = "\<lambda>c. c \<noteq> CHR '':'' \<and> c \<noteq> CHR ''#''"
  let ?s3 = "col @ CHR '':'' # CHR '' '' # msg @ rest"
  let ?s2 = "ln @ CHR '':'' # ?s3"
  have g1: "takeWhile ?P (path @ CHR '':'' # ?s2) = path"
           "dropWhile ?P (path @ CHR '':'' # ?s2) = CHR '':'' # ?s2"
    using span_run [of path ?P "CHR '':'' # ?s2"] assms(2) by simp_all
  have g2: "takeWhile isDigit ?s2 = ln" "dropWhile isDigit ?s2 = CHR '':'' # ?s3"
    using digits_run [OF assms(4) colon_not_digit(1)] by simp_all
  have g3: "takeWhile isDigit ?s3 = col" "dropWhile isDigit ?s3 = CHR '':'' # CHR '' '' # msg @ rest"
    using digits_run [OF assms(6) colon_not_digit(1)] by simp_all
  have g4: "restOfLine (msg @ rest) = msg"
    using assms(7,8) by (rule restOfLine_run)
  show ?thesis
    unfolding matchPrimary_def g1 Let_def
    using assms(1,3,5) by (simp add: g2 g3 g4)
qed

lemma matchPrimary_plain:
  assumes "path \<noteq> []" "\<forall>c\<in>set path. c \<noteq> CHR '':'' \<and> c \<noteq> CHR ''#''"
    and "ln \<noteq> []" "list_all isDigit ln"
    and "newline \<notin> set msg" "rest = [] \<or> hd rest = newline"
  shows "matchPrimary (path @ CHR '':'' # ln @ CHR '':'' # CHR '' '' # msg @ rest) =
         Some [path @ '':'' @ ln @ '': '' @ msg, path, ln, [], msg]"
proof -
  let ?P = "\<lambda>c. c \<noteq> CHR '':'' \<and> c \<noteq> CHR ''#''"
  let ?s3 = "CHR '' '' # msg @ rest"
  let ?s2 = "ln @ CHR '':'' # ?s3"
  have g1: "takeWhile ?P (path @ CHR '':'' # ?s2) = path"
           "dropWhile ?P (path @ CHR '':'' # ?s2) = CHR '':'' # ?s2"
    using span_run [of path ?P "CHR '':'' # ?s2"] assms(2) by simp_all
  have g2: "takeWhile isDigit ?s2 = ln" "dropWhile isDigit ?s2 = CHR '':'' # ?s3"
    using digits_run [OF assms(4) colon_not_digit(1)] by simp_all
  have g4: "restOfLine (msg @ rest) = msg"
    using assms(5,6) by (rule restOfLine_run)
  show ?thesis
    unfolding matchPrimary_def g1 Let_def
    using assms(1,3) by (simp add: g2 g4 colon_not_digit)
qed

lemma matchPrimary_hash: "matchPrimary (CHR ''#'' # s) = None"
  by (simp add: matchPrimary_def)

lemma searchLines_found: "m s = Some r \<Longrightarrow> searchLines m s = Some r"
  by (subst searchLines.simps) simp

lemma searchLines_skip:
  "m (l @ newline # s) = None \<Longrightarrow> newline \<notin> set l \<Longrightarrow>
   searchLines m (l @ newline # s) = searchLines m s"
proof -
  assume none: "m (l @ newline # s) = None" and l: "newline \<notin> set l"
  have "dropWhile (\<lambda>c. c \<noteq> newline) (l @ newline # s) = newline # s"
    using not_newline_run [OF l, of "newline # s"] by simp
  with none show ?thesis by (subst searchLines.simps) simp
qed

lemma searchLines_skip_lines:
  "\<forall>l\<in>set ls. newline \<notin> set l \<and> (\<forall>s. m (l @ newline # s) = None) \<Longrightarrow>
   searchLines m (concat (map (\<lambda>l. l @ [newline]) ls) @ s) = searchLines m s"
proof (induction ls)
  case Nil
  then show ?case by simp
next
  case (Cons l ls)
  then have "searchLines m (l @ newline # (concat (map (\<lambda>l. l @ [newline]) ls) @ s)) =
      searchLines m (concat (map (\<lambda>l. l @ [newline]) ls) @ s)"
    by (intro searchLines_skip) simp_all
  with Cons show ?case by simp
qed

text \<open>
  The toolchain heads the diagnostics of a package with a line \<open># package\<close>;
  \<open>headerText hs\<close> is a run of such lines, one for each text of \<open>hs\<close>.
\<close>

definition headerText :: "string list \<Rightarrow> string" where
  "headerText hs = concat (map (\<lambda>l. CHR ''#'' # l @ [newline]) hs)"

lemma headerText_lines: "headerText hs = concat (map (\<lambda>l. l @ [newline]) (map ((#) (CHR ''#'')) hs))"
  by (simp add: headerText_def comp_def)

lemma searchLines_primary_header:
  "\<forall>l\<in>set hs. newline \<notin> set l \<Longrightarrow>
   searchLines matchPrimary (headerText hs @ s) = searchLines matchPrimary s"
  unfolding headerText_lines
  by (rule searchLines_skip_lines) (auto simp: matchPrimary_hash newline_def)

lemma fallbackTail_other: "c \<noteq> CHR '':'' \<Longrightarrow> fallbackTail (c # s) = None"
  by (simp add: fallbackTail_def)

lemma fallbackTail_hit:
  assumes "ln \<noteq> []" "list_all isDigit ln" "isSpaceClass w"
    and "newline \<notin> set msg" "rest = [] \<or> hd rest = newline"
  shows "fallbackTail (CHR '':'' # ln @ CHR '':'' # w # msg @ rest) = Some (ln, w, msg)"
proof -
  have g2: "takeWhile isDigit (ln @ CHR '':'' # w # msg @ rest) = ln"
           "dropWhile isDigit (ln @ CHR '':'' # w # msg @ rest) = CHR '':'' # w # msg @ rest"
    using digits_run [OF assms(2) colon_not_digit(1)] by simp_all
  have g4: "restOfLine (msg @ rest) = msg"
    using assms(4,5) by (rule restOfLine_run)
  show ?thesis
    unfolding fallbackTail_def using assms(1,3) by (simp add: g2 g4)
qed

lemma matchFallbackFrom_hit:
  assumes "ln \<noteq> []" "list_all isDigit ln" "isSpaceClass w"
    and "newline \<notin> set msg" "rest = [] \<or> hd rest = newline"
  shows "\<forall>c\<in>set path. c \<noteq> CHR '':'' \<and> c \<noteq> newline \<Longrightarrow>
     matchFallbackFrom acc (path @ CHR '':'' # ln @ CHR '':'' # w # msg @ rest) =
       Some [rev acc @ path @ '':'' @ ln @ '':'' @ [w] @ msg, rev acc @ path, ln, msg]"
proof (induction path arbitrary: acc)
  case Nil
  show ?case using fallbackTail_hit [OF assms] by (subst matchFallbackFrom.simps) simp
next
  case (Cons c path)
  then have c: "c \<noteq> CHR '':''" "c \<noteq> newline" by simp_all
  have "matchFallbackFrom acc ((c # path) @ CHR '':'' # ln @ CHR '':'' # w # msg @ rest) =
      matchFallbackFrom (c # acc) (path @ CHR '':'' # ln @ CHR '':'' # w # msg @ rest)"
    using c by (subst matchFallbackFrom.simps) (simp add: fallbackTail_other)
  also have "\<dots> = Some [rev (c # acc) @ path @ '':'' @ ln @ '':'' @ [w] @ msg,
      rev (c # acc) @ path, ln, msg]"
    using Cons.prems by (intro Cons.IH) simp
  finally show ?case by simp
qed

lemma matchFallbackFrom_miss:
  "\<forall>c\<in>set l. c \<noteq> CHR '':'' \<and> c \<noteq> newline \<Longrightarrow>
   matchFallbackFrom acc (l @ newline # s) = None"
proof (induction l arbitrary: acc)
  case Nil
  have "fallbackTail (newline # s) = None"
    by (rule fallbackTail_other) (simp add: newline_def)
  then show ?case by (subst matchFallbackFrom.simps) simp
next
  case (Cons c l)
  then have "fallbackTail (c # l @ newline # s) = None" by (intro fallbackTail_other) simp
  with Cons show ?case by (subst matchFallbackFrom.simps) simp
qed

lemma searchLines_fallback_header:
  "\<forall>l\<in>set hs. \<forall>c\<in>set l. c \<noteq> CHR '':'' \<and> c \<noteq> newline \<Longrightarrow>
   searchLines (matchFallbackFrom []) (headerText hs @ s) = searchLines (matchFallbackFrom []) s"
  unfolding headerText_lines
proof (rule searchLines_skip_lines, rule ballI)
  fix l assume a: "\<forall>l\<in>set hs. \<forall>c\<in>set l. c \<noteq> CHR '':'' \<and> c \<noteq> newline"
    and l: "l \<in> set (map ((#) (CHR ''#'')) hs)"
  then obtain h where h: "h \<in> set hs" "l = CHR ''#'' # h" by auto
  with a have ok: "\<forall>c\<in>set l. c \<noteq> CHR '':'' \<and> c \<noteq> newline" by (auto simp: newline_def)
  then have "newline \<notin> set l" by auto
  moreover have "\<forall>s. matchFallbackFrom [] (l @ newline # s) = None"
    using ok by (simp add: matchFallbackFrom_miss)
  ultimately show "newline \<notin> set l \<and> (\<forall>s. matchFallbackFrom [] (l @ newline # s) = None)" by simp
qed

lemma newCompileError_fields:
  "findErrorMatch out = Some em \<Longrightarrow>
   Path (newCompileError env out) = em ! 1 \<and>
   Line (newCompileError env out) = strconv_Atoi (em ! 2) \<and>
   Description (newCompileError env out) = em ! 4"
  by (simp add: newCompileError_def Let_def SetLink_def split: sum.splits)


lemma findErrorMatch_primary:
  "searchLines matchPrimary out = Some em \<Longrightarrow> findErrorMatch out = Some em"
  by (simp add: findErrorMatch_def)

lemma findErrorMatch_fallback:
  "searchLines matchPrimary out = None \<Longrightarrow> searchLines (matchFallbackFrom []) out = Some em \<Longrightarrow>
   findErrorMatch out = Some (em @ [em ! 3])"
  by (simp add: findErrorMatch_def)

text \<open>
  Claim C5, as amended. (1) When the output consists of \<open>#\<close> header lines (none, or
  more) followed by a line \<open>path:line:col: message\<close>, where the path is non-empty
  and has no colon and no \<open>#\<close>, line and column are digits and the message runs to
  the end of its line, the error carries exactly this path, the number the line digits
  denote and the message; the same holds for a line \<open>path:line: message\<close> without
  column in that place, which the first pattern matches too, its column group being
  optional. (2) When the first pattern matches nowhere in the output, the fallback
  pattern extracts the same three fields from such a line \<open>path:line: message\<close>
  (the path without colon, the separator any character of \<open>\s\<close>, after header lines
  without colon). (3) When the output matches neither pattern, the error is the
  generic one: no path, line 0, and the description that points to the console.
  Nothing is said about a diagnostic line behind other lines: the path group of the
  first pattern also runs over newlines.
\<close>

theorem newCompileError_extracts:
  "((\<forall>l\<in>set hs. newline \<notin> set l) \<and>
    path \<noteq> [] \<and> (\<forall>c\<in>set path. c \<noteq> CHR '':'' \<and> c \<noteq> CHR ''#'') \<and>
    ln \<noteq> [] \<and> list_all isDigit ln \<and> col \<noteq> [] \<and> list_all isDigit col \<and>
    newline \<notin> set msg \<and> (rest = [] \<or> hd rest = newline) \<longrightarrow>
      (let e1 = newCompileError env
                  (headerText hs @ path @ '':'' @ ln @ '':'' @ col @ '': '' @ msg @ rest);
           e2 = newCompileError env (headerText hs @ path @ '':'' @ ln @ '': '' @ msg @ rest)
       in Path e1 = path \<and> Line e1 = strconv_Atoi ln \<and> Description e1 = msg \<and>
          Path e2 = path \<and> Line e2 = strconv_Atoi ln \<and> Description e2 = msg))
   \<and> (searchLines matchPrimary (headerText hs' @ path' @ '':'' @ ln' @ '':'' @ [w] @ msg' @ rest')
         = None \<and>
       (\<forall>l\<in>set hs'. \<forall>c\<in>set l. c \<noteq> CHR '':'' \<and> c \<noteq> newline) \<and>
       (\<forall>c\<in>set path'. c \<noteq> CHR '':'' \<and> c \<noteq> newline) \<and>
       ln' \<noteq> [] \<and> list_all isDigit ln' \<and> isSpaceClass w \<and>
       newline \<notin> set msg' \<and> (rest' = [] \<or> hd rest' = newline) \<longrightarrow>
      (let e3 = newCompileError env
                  (headerText hs' @ path' @ '':'' @ ln' @ '':'' @ [w] @ msg' @ rest')
       in Path e3 = path' \<and> Line e3 = strconv_Atoi ln' \<and> Description e3 = msg'))
   \<and> (searchLines matchPrimary out = None \<and> searchLines (matchFallbackFrom []) out = None \<longrightarrow>
      newCompileError env out =
        emptyError\<lparr>SourceType := ''Go code'', Title := ''Go Compilation Error'',
          Description := ''See console for build error.''\<rparr>)"
proof (intro conjI impI)
  assume h: "(\<forall>l\<in>set hs. newline \<notin> set l) \<and>
    path \<noteq> [] \<and> (\<forall>c\<in>set path. c \<noteq> CHR '':'' \<and> c \<noteq> CHR ''#'') \<and>
    ln \<noteq> [] \<and> list_all isDigit ln \<and> col \<noteq> [] \<and> list_all isDigit col \<and>
    newline \<notin> set msg \<and> (rest = [] \<or> hd rest = newline)"
  let ?o1 = "headerText hs @ path @ '':'' @ ln @ '':'' @ col @ '': '' @ msg @ rest"
  let ?o2 = "headerText hs @ path @ '':'' @ ln @ '': '' @ msg @ rest"
  have m1: "matchPrimary (path @ CHR '':'' # ln @ CHR '':'' # col @ CHR '':'' # CHR '' '' # msg @ rest) =
         Some [path @ '':'' @ ln @ '':'' @ (col @ '':'') @ '' '' @ msg, path, ln, col @ '':'', msg]"
    using h by (intro matchPrimary_column) simp_all
  have "searchLines matchPrimary ?o1 =
      Some [path @ '':'' @ ln @ '':'' @ (col @ '':'') @ '' '' @ msg, path, ln, col @ '':'', msg]"
    using h searchLines_primary_header [of hs]  searchLines_found [where m = matchPrimary, OF m1] by simp
  from newCompileError_fields [OF findErrorMatch_primary [OF this], of env]
  have f1: "Path (newCompileError env ?o1) = path \<and>
      Line (newCompileError env ?o1) = strconv_Atoi ln \<and>
      Description (newCompileError env ?o1) = msg" by simp
  have m2: "matchPrimary (path @ CHR '':'' # ln @ CHR '':'' # CHR '' '' # msg @ rest) =
         Some [path @ '':'' @ ln @ '': '' @ msg, path, ln, [], msg]"
    using h by (intro matchPrimary_plain) simp_all
  have "searchLines matchPrimary ?o2 = Some [path @ '':'' @ ln @ '': '' @ msg, path, ln, [], msg]"
    using h searchLines_primary_header [of hs] searchLines_found [where m = matchPrimary, OF m2] by simp
  from newCompileError_fields [OF findErrorMatch_primary [OF this], of env]
  have f2: "Path (newCompileError env ?o2) = path \<and>
      Line (newCompileError env ?o2) = strconv_Atoi ln \<and>
      Description (newCompileError env ?o2) = msg" by simp
  from f1 f2 show "let e1 = newCompileError env ?o1; e2 = newCompileError env ?o2
       in Path e1 = path \<and> Line e1 = strconv_Atoi ln \<and> Description e1 = msg \<and>
          Path e2 = path \<and> Line e2 = strconv_Atoi ln \<and> Description e2 = msg"
    by (simp add: Let_def)
next
  let ?o3 = "headerText hs' @ path' @ '':'' @ ln' @ '':'' @ [w] @ msg' @ rest'"
  assume h: "searchLines matchPrimary ?o3 = None \<and>
       (\<forall>l\<in>set hs'. \<forall>c\<in>set l. c \<noteq> CHR '':'' \<and> c \<noteq> newline) \<and>
       (\<forall>c\<in>set path'. c \<noteq> CHR '':'' \<and> c \<noteq> newline) \<and>
       ln' \<noteq> [] \<and> list_all isDigit ln' \<and> isSpaceClass w \<and>
       newline \<notin> set msg' \<and> (rest' = [] \<or> hd rest' = newline)"
  have m3: "matchFallbackFrom [] (path' @ CHR '':'' # ln' @ CHR '':'' # w # msg' @ rest') =
       Some [rev [] @ path' @ '':'' @ ln' @ '':'' @ [w] @ msg', rev [] @ path', ln', msg']"
    using h by (intro matchFallbackFrom_hit) simp_all
  have "searchLines (matchFallbackFrom []) ?o3 =
      Some [path' @ '':'' @ ln' @ '':'' @ [w] @ msg', path', ln', msg']"
    using h searchLines_fallback_header [of hs'] searchLines_found [where m = "matchFallbackFrom []", OF m3] by simp
  from findErrorMatch_fallback [OF _ this] h
  have "findErrorMatch ?o3 =
      Some ([path' @ '':'' @ ln' @ '':'' @ [w] @ msg', path', ln', msg'] @ [msg'])" by simp
  from newCompileError_fields [OF this, of env]
  show "let e3 = newCompileError env ?o3
       in Path e3 = path' \<and> Line e3 = strconv_Atoi ln' \<and> Description e3 = msg'"
    by (simp add: Let_def)
next
  assume "searchLines matchPrimary out = None \<and> searchLines (matchFallbackFrom []) out = None"
  then show "newCompileError env out =
        emptyError\<lparr>SourceType := ''Go code'', Title := ''Go Compilation Error'',
          Description := ''See console for build error.''\<rparr>"
    by (simp add: newCompileError_def findErrorMatch_def)
qed

text \<open>
  The claim as stated does not hold for every output that contains a diagnostic line.
  After a first line without colon and \<open>#\<close>, the path group of the first pattern
  starts at that line and runs on across the newline, so the extracted path is not the
  path of the diagnostic line. And a line without column is matched by the first
  pattern; the fallback pattern is not consulted for it.
\<close>

definition sampleCompileEnv :: CompileEnv where
  "sampleCompileEnv =
     \<lparr>Config_StringDefault = (\<lambda>key dflt. dflt),
      filepath_Abs = (\<lambda>p. ''/home/dev/go/src/shop/'' @ p),
      ReadLines = (\<lambda>p. Inl ''no such file or directory''),
      linkText = (\<lambda>errorLink e. errorLink)\<rparr>"

theorem newCompileError_merges_lines:
  "Path (newCompileError sampleCompileEnv
           (''go build failed'' @ [newline] @ ''app/x.go:12:5: undefined: y'')) =
     ''go build failed'' @ [newline] @ ''app/x.go''
   \<and> searchLines matchPrimary ''app/x.go:12: undefined: y'' =
       Some [''app/x.go:12: undefined: y'', ''app/x.go'', ''12'', [], ''undefined: y'']"
  by (simp add: newCompileError_def findErrorMatch_def searchLines.simps matchPrimary_def
      restOfLine_def isDigit_def newline_def Let_def SetLink_def sampleCompileEnv_def)

theorem newCompileError_extracts_witness:
  "Path (newCompileError sampleCompileEnv
      (''# shop/app/controllers'' @ [newline] @ ''app/controllers/app.go:12:5: undefined: x'' @
       [newline] @ ''app/controllers/app.go:14:2: undefined: y'')) = ''app/controllers/app.go''
   \<and> Line (newCompileError sampleCompileEnv
      (''# shop/app/controllers'' @ [newline] @ ''app/controllers/app.go:12:5: undefined: x'' @
       [newline] @ ''app/controllers/app.go:14:2: undefined: y'')) = 12
   \<and> Description (newCompileError sampleCompileEnv
      (''# shop/app/controllers'' @ [newline] @ ''app/controllers/app.go:12:5: undefined: x'' @
       [newline] @ ''app/controllers/app.go:14:2: undefined: y'')) = ''undefined: x''
   \<and> Path (newCompileError sampleCompileEnv
      (''# shop/app/controllers'' @ [newline] @ ''app/controllers/app.go:12: undefined: x'' @
       [newline] @ ''app/controllers/app.go:14:2: undefined: y'')) = ''app/controllers/app.go''
   \<and> Path (newCompileError sampleCompileEnv
      (''# shop/app'' @ [newline] @ ''app/c#1/app.go:7: syntax error'')) = ''app/c#1/app.go''
   \<and> Line (newCompileError sampleCompileEnv
      (''# shop/app'' @ [newline] @ ''app/c#1/app.go:7: syntax error'')) = 7
   \<and> Description (newCompileError sampleCompileEnv
      (''# shop/app'' @ [newline] @ ''app/c#1/app.go:7: syntax error'')) = ''syntax error''
   \<and> newCompileError sampleCompileEnv ''exit status 2'' =
        emptyError\<lparr>SourceType := ''Go code'', Title := ''Go Compilation Error'',
          Description := ''See console for build error.''\<rparr>"
proof -
  let ?hs = "['' shop/app/controllers'']" and ?path = "''app/controllers/app.go''"
  let ?rest = "newline # ''app/controllers/app.go:14:2: undefined: y''"
  let ?hs' = "['' shop/app'']" and ?path' = "''app/c#1/app.go''"
  have h1: "(\<forall>l\<in>set ?hs. newline \<notin> set l) \<and>
    ?path \<noteq> [] \<and> (\<forall>c\<in>set ?path. c \<noteq> CHR '':'' \<and> c \<noteq> CHR ''#'') \<and>
    ''12'' \<noteq> [] \<and> list_all isDigit ''12'' \<and> ''5'' \<noteq> [] \<and> list_all isDigit ''5'' \<and>
    newline \<notin> set ''undefined: x'' \<and> (?rest = [] \<or> hd ?rest = newline)"
    by (simp add: isDigit_def newline_def)
  have h2: "searchLines matchPrimary
        (headerText ?hs' @ ?path' @ '':'' @ ''7'' @ '':'' @ [CHR '' ''] @ ''syntax error'' @ []) = None \<and>
       (\<forall>l\<in>set ?hs'. \<forall>c\<in>set l. c \<noteq> CHR '':'' \<and> c \<noteq> newline) \<and>
       (\<forall>c\<in>set ?path'. c \<noteq> CHR '':'' \<and> c \<noteq> newline) \<and>
       ''7'' \<noteq> [] \<and> list_all isDigit ''7'' \<and> isSpaceClass (CHR '' '') \<and>
       newline \<notin> set ''syntax error'' \<and> ([] = [] \<or> hd [] = newline)"
    by (simp add: searchLines.simps matchPrimary_def headerText_def isDigit_def isSpaceClass_def
        newline_def)
  have h3: "searchLines matchPrimary ''exit status 2'' = None \<and>
      searchLines (matchFallbackFrom []) ''exit status 2'' = None"
    by (simp add: searchLines.simps matchPrimary_def matchFallbackFrom.simps fallbackTail_def
        newline_def)
  have n12: "strconv_Atoi ''12'' = 12" and n7: "strconv_Atoi ''7'' = 7"
    by (simp_all add: strconv_Atoi_def isDigit_def digitValue_def maxInt_def)
  note t = newCompileError_extracts
    [of ?hs ?path "''12''" "''5''" "''undefined: x''" ?rest sampleCompileEnv
        ?hs' ?path' "''7''" "CHR '' ''" "''syntax error''" "[]" "''exit status 2''"]
  from t [THEN conjunct1] h1 n12
  have c1: "Path (newCompileError sampleCompileEnv
      (''# shop/app/controllers'' @ [newline] @ ''app/controllers/app.go:12:5: undefined: x'' @
       [newline] @ ''app/controllers/app.go:14:2: undefined: y'')) = ''app/controllers/app.go''
   \<and> Line (newCompileError sampleCompileEnv
      (''# shop/app/controllers'' @ [newline] @ ''app/controllers/app.go:12:5: undefined: x'' @
       [newline] @ ''app/controllers/app.go:14:2: undefined: y'')) = 12
   \<and> Description (newCompileError sampleCompileEnv
      (''# shop/app/controllers'' @ [newline] @ ''app/controllers/app.go:12:5: undefined: x'' @
       [newline] @ ''app/controllers/app.go:14:2: undefined: y'')) = ''undefined: x''
   \<and> Path (newCompileError sampleCompileEnv
      (''# shop/app/controllers'' @ [newline] @ ''app/controllers/app.go:12: undefined: x'' @
       [newline] @ ''app/controllers/app.go:14:2: undefined: y'')) = ''app/controllers/app.go''"
    by (simp add: Let_def headerText_def)
  from t [THEN conjunct2, THEN conjunct1] h2 n7
  have c2: "Path (newCompileError sampleCompileEnv
      (''# shop/app'' @ [newline] @ ''app/c#1/app.go:7: syntax error'')) = ''app/c#1/app.go''
   \<and> Line (newCompileError sampleCompileEnv
      (''# shop/app'' @ [newline] @ ''app/c#1/app.go:7: syntax error'')) = 7
   \<and> Description (newCompileError sampleCompileEnv
      (''# shop/app'' @ [newline] @ ''app/c#1/app.go:7: syntax error'')) = ''syntax error''"
    by (simp add: Let_def headerText_def)
  from t [THEN conjunct2, THEN conjunct2] h3
  have c3: "newCompileError sampleCompileEnv ''exit status 2'' =
        emptyError\<lparr>SourceType := ''Go code'', Title := ''Go Compilation Error'',
          Description := ''See console for build error.''\<rparr>"
    by simp
  from c1 c2 c3 show ?thesis by simp
qed

section \<open>Build\<close>

text \<open>
  \<open>importErrorPattern\<close>, the pattern \<open>cannot find package "([^"]+)"\<close>: the first
  place of the text where the words stand, followed by a non-empty run of characters
  other than the double quote and then by a double quote. The value is the submatch
  (the package name), \<open>None\<close> when \<open>FindStringSubmatch\<close> returns nil.
\<close>

definition importPrefix :: string where
  "importPrefix = ''cannot find package '' @ [dquote]"

definition matchImportAt :: "string \<Rightarrow> string option" where
  "matchImportAt s =
     (if isPrefixOf importPrefix s then
        (let r = drop (length importPrefix) s;
             name = takeWhile (\<lambda>c. c \<noteq> dquote) r;
             after = dropWhile (\<lambda>c. c \<noteq> dquote) r
         in if name \<noteq> [] \<and> after \<noteq> [] then Some name else None)
      else None)"

fun importErrorPattern :: "string \<Rightarrow> string option" where
  "importErrorPattern [] = None"
| "importErrorPattern (c # cs) =
     (case matchImportAt (c # cs) of
        Some name \<Rightarrow> Some name
      | None \<Rightarrow> importErrorPattern cs)"

text \<open>
  The two templates are constants of the source; only which one is rendered matters
  here. The template arguments are the four entries of the map the source builds.
\<close>

datatype template = MAIN | ROUTES

record TemplateArgs =
  arg_Controllers :: "TypeInfo list"
  arg_ValidationKeys :: "(string \<times> (int \<times> string) list) list"
  arg_ImportPaths :: aliasMap
  arg_TestSuites :: "TypeInfo list"

text \<open>
  What \<open>Build\<close> reads from its surroundings. \<open>ProcessSource\<close> is the result of the
  analyzer (of this repository, not among the sources): a compile error or the source
  information. \<open>os.Mkdir\<close> succeeds, fails because the directory exists, or fails
  otherwise. \<open>build_Import\<close> is the \<open>BinDir\<close> of the package that
  \<open>build.Default.Import\<close> finds. \<open>CombinedOutput\<close> runs a command in iteration \<open>n\<close>
  of the retry loop: whether its error is nil, and its output.
\<close>

datatype MkdirResult = MkdirDone | MkdirExists | MkdirOtherError

record BuildEnv =
  ProcessSource :: "Error + SourceInfo"
  Config_String :: "string \<Rightarrow> string option"
  compileEnv :: CompileEnv
  gospf_ImportPath :: string
  gospf_BasePath :: string
  gospf_AppPath :: string
  ExecuteTemplate :: "template \<Rightarrow> TemplateArgs \<Rightarrow> string"
  os_Mkdir :: "string \<Rightarrow> MkdirResult"
  os_Create :: "string \<Rightarrow> bool"
  file_WriteString :: "string \<Rightarrow> string \<Rightarrow> bool"
  LookPath :: "string \<Rightarrow> string option"
  build_Import :: "string \<Rightarrow> string option"
  runtime_GOOS :: string
  environ :: "string \<Rightarrow> string"
  versionEnv :: "nat \<Rightarrow> VersionEnv"
  CombinedOutput :: "nat \<Rightarrow> string \<Rightarrow> string list \<Rightarrow> bool \<times> string"

text \<open>
  \<open>genSource\<close> renders the template, makes the directory and writes the file. A
  failure to make the directory (other than its existing already), to create the file
  or to write it ends the program through \<open>Fatalf\<close>.
\<close>

definition genSource :: "BuildEnv \<Rightarrow> string \<Rightarrow> string \<Rightarrow> template \<Rightarrow> TemplateArgs \<Rightarrow> abort + unit" where
  "genSource env dir filename templateSource args =
     (let sourceCode = ExecuteTemplate env templateSource args;
          tmpPath = path_Join [gospf_AppPath env, dir]
      in if os_Mkdir env tmpPath = MkdirOtherError then Inl Exit
         else if \<not> os_Create env (path_Join [tmpPath, filename]) then Inl Exit
         else if \<not> file_WriteString env (path_Join [tmpPath, filename]) sourceCode then Inl Exit
         else Inr ())"

text \<open>
  The arguments of the \<open>go build\<close> command of one iteration, and the path of the
  binary: \<open>$GOBIN/gospf.d\<close>, the import path and the base name of the application,
  with \<open>.exe\<close> when the target system (the variable \<open>GOOS\<close>, or else the system of
  the running harness) is Windows.
\<close>

definition buildArgs :: "BuildEnv \<Rightarrow> string \<Rightarrow> string \<Rightarrow> string \<Rightarrow> string list \<Rightarrow> string list" where
  "buildArgs env appVersion buildTags binName buildFlags =
     (let versionLinkerFlags =
            ''-X '' @ gospf_ImportPath env @ ''/app.APP_VERSION '' @
            [dquote] @ appVersion @ [dquote];
          flags =
            [''build'', ''-ldflags'', versionLinkerFlags, ''-tags'', buildTags, ''-o'', binName]
      in flags @ buildFlags @ [path_Join [gospf_ImportPath env, ''app'', ''tmp'']])"

definition binaryName :: "BuildEnv \<Rightarrow> string \<Rightarrow> string" where
  "binaryName env binDir =
     (let binName =
            path_Join [binDir, ''gospf.d'', gospf_ImportPath env, path_Base (gospf_BasePath env)];
          goos = (if environ env ''GOOS'' \<noteq> [] then environ env ''GOOS'' else runtime_GOOS env)
      in if goos = ''windows'' then binName @ ''.exe'' else binName)"

text \<open>
  The retry loop of \<open>Build\<close>. It may run forever, so it is a partial function:
  \<open>None\<close> is a run that never returns. \<open>n\<close> counts the iterations (the surroundings
  answer by iteration), \<open>gotten\<close> is the set of packages already tried, and \<open>fetched\<close>
  lists, in order, the packages for which \<open>go get\<close> was run; it is returned with the
  result. A result is an abort of the program, or the pair that \<open>Build\<close> returns.
\<close>

type_synonym BuildResult = "abort + (App option \<times> Error option)"

partial_function (option) buildLoop ::
  "BuildEnv \<Rightarrow> string \<Rightarrow> string \<Rightarrow> string \<Rightarrow> string list \<Rightarrow> nat \<Rightarrow> string set \<Rightarrow> string list \<Rightarrow>
   (BuildResult \<times> string list) option" where
  "buildLoop env goPath binName buildTags buildFlags n gotten fetched =
     (case getAppVersion (versionEnv env n) (gospf_BasePath env) of
        Inl a \<Rightarrow> Some (Inl a, fetched)
      | Inr appVersion \<Rightarrow>
          (let built = CombinedOutput env n goPath
                         (buildArgs env appVersion buildTags binName buildFlags)
           in if fst built then Some (Inr (Some (NewApp binName), None), fetched)
              else
                (case importErrorPattern (snd built) of
                   None \<Rightarrow>
                     Some (Inr (None, Some (newCompileError (compileEnv env) (snd built))), fetched)
                 | Some pkgName \<Rightarrow>
                     if pkgName \<in> gotten
                     then Some (Inr (None, Some (newCompileError (compileEnv env) (snd built))),
                                fetched)
                     else if \<not> fst (CombinedOutput env n goPath [''get'', pkgName])
                     then Some (Inr (None, Some (newCompileError (compileEnv env) (snd built))),
                                fetched @ [pkgName])
                     else buildLoop env goPath binName buildTags buildFlags (Suc n)
                            (insert pkgName gotten) (fetched @ [pkgName]))))"

text \<open>
  \<open>Build\<close>. The calls of \<open>cleanSource\<close> only log their failures and change nothing
  that is read here, so they leave no trace in the model; the unreachable statements
  behind the loop are left out.
\<close>

definition Build :: "BuildEnv \<Rightarrow> string list \<Rightarrow> (BuildResult \<times> string list) option" where
  "Build env buildFlags =
     (case ProcessSource env of
        Inl compileError \<Rightarrow> Some (Inr (None, Some compileError), [])
      | Inr analyzed \<Rightarrow>
          (let sourceInfo =
                 (case Config_String env ''db.import'' of
                    Some dbImportPath \<Rightarrow>
                      analyzed\<lparr>InitImportPaths := InitImportPaths analyzed @ [dbImportPath]\<rparr>
                  | None \<Rightarrow> analyzed);
               templateArgs =
                 \<lparr>arg_Controllers = ControllerSpecs sourceInfo,
                  arg_ValidationKeys = ValidationKeys sourceInfo,
                  arg_ImportPaths = calcImportAliases sourceInfo,
                  arg_TestSuites = TestSuites sourceInfo\<rparr>
           in case genSource env ''tmp'' ''main.go'' MAIN templateArgs of
                Inl a \<Rightarrow> Some (Inl a, [])
              | Inr u \<Rightarrow>
                  (case genSource env ''routes'' ''routes.go'' ROUTES templateArgs of
                     Inl a \<Rightarrow> Some (Inl a, [])
                   | Inr u' \<Rightarrow>
                       (let buildTags = Config_StringDefault (compileEnv env) ''build.tags'' []
                        in case LookPath env ''go'' of
                             None \<Rightarrow> Some (Inl Exit, [])
                           | Some goPath \<Rightarrow>
                               (case build_Import env (gospf_ImportPath env) of
                                  None \<Rightarrow> Some (Inl Exit, [])
                                | Some binDir \<Rightarrow>
                                    buildLoop env goPath (binaryName env binDir) buildTags
                                      buildFlags 0 {} [])))))"

subsection \<open>Properties of the retry loop\<close>

lemma buildLoop_result_shape:
  "buildLoop env goPath binName buildTags buildFlags n gotten fetched = Some y \<Longrightarrow>
   (\<exists>a. fst y = Inl a) \<or> fst y = Inr (Some (NewApp binName), None) \<or>
   (\<exists>e. fst y = Inr (None, Some e))"
proof (induction rule: buildLoop.raw_induct [rotated 1, consumes 1])
  case (1 loop env goPath binName buildTags buildFlags n gotten fetched y)
  from "1.hyps" show ?case
    by (auto simp: Let_def dest: "1.IH" split: sum.splits if_splits option.splits)
qed

lemma buildLoop_fetched_distinct:
  "buildLoop env goPath binName buildTags buildFlags n gotten fetched = Some y \<Longrightarrow>
   distinct fetched \<and> set fetched = gotten \<longrightarrow> distinct (snd y)"
proof (induction rule: buildLoop.raw_induct [rotated 1, consumes 1])
  case (1 loop env goPath binName buildTags buildFlags n gotten fetched y)
  from "1.hyps" show ?case
    by (auto simp: Let_def dest!: "1.IH" split: sum.splits if_splits option.splits)
qed


lemma buildLoop_fetched_reported:
  "buildLoop env goPath binName buildTags buildFlags n gotten fetched = Some y \<Longrightarrow>
   (\<forall>n goPath args p.
        importErrorPattern (snd (CombinedOutput env n goPath args)) = Some p \<longrightarrow> p \<in> P) \<longrightarrow>
   set (snd y) \<subseteq> set fetched \<union> P"
proof (induction rule: buildLoop.raw_induct [rotated 1, consumes 1])
  case (1 loop env goPath binName buildTags buildFlags n gotten fetched y)
  show ?case
  proof
    assume rep: "\<forall>n goPath args p.
        importErrorPattern (snd (CombinedOutput env n goPath args)) = Some p \<longrightarrow> p \<in> P"
    have inP: "\<And>v p. importErrorPattern (snd (CombinedOutput env n goPath
        (buildArgs env v buildTags binName buildFlags))) = Some p \<Longrightarrow> p \<in> P"
      using rep by blast
    from "1.hyps" show "set (snd y) \<subseteq> set fetched \<union> P"
      using rep
      by (auto simp: Let_def dest!: "1.IH" split: sum.splits if_splits option.splits)
         (blast dest: inP)
  qed
qed

lemma buildLoop_terminates:
  assumes fin: "finite P"
    and rep: "\<forall>n goPath args p.
        importErrorPattern (snd (CombinedOutput env n goPath args)) = Some p \<longrightarrow> p \<in> P"
  shows "\<exists>y. buildLoop env goPath binName buildTags buildFlags n gotten fetched = Some y"
proof (induction "card (P - gotten)" arbitrary: n gotten fetched rule: less_induct)
  case less
  show ?case
  proof (cases "getAppVersion (versionEnv env n) (gospf_BasePath env)")
    case (Inl a)
    then show ?thesis by (subst buildLoop.simps) simp
  next
    case (Inr appVersion)
    let ?built = "CombinedOutput env n goPath (buildArgs env appVersion buildTags binName buildFlags)"
    show ?thesis
    proof (cases "fst ?built")
      case True
      with Inr show ?thesis by (subst buildLoop.simps) (simp add: Let_def)
    next
      case False
      show ?thesis
      proof (cases "importErrorPattern (snd ?built)")
        case None
        with Inr False show ?thesis by (subst buildLoop.simps) (simp add: Let_def)
      next
        case (Some pkgName)
        show ?thesis
        proof (cases "pkgName \<in> gotten \<or> \<not> fst (CombinedOutput env n goPath [''get'', pkgName])")
          case True
          with Inr False Some show ?thesis by (subst buildLoop.simps) (auto simp: Let_def)
        next
          case retry: False
          from rep Some have "pkgName \<in> P" by blast
          with retry have "pkgName \<in> P - gotten" by simp
          moreover have "P - insert pkgName gotten = (P - gotten) - {pkgName}" by auto
          moreover have "card ((P - gotten) - {pkgName}) < card (P - gotten)"
            using fin \<open>pkgName \<in> P - gotten\<close> by (intro card_Diff1_less) auto
          ultimately have "card (P - insert pkgName gotten) < card (P - gotten)"
            by simp
          from less [OF this]
          obtain y where "buildLoop env goPath binName buildTags buildFlags (Suc n)
              (insert pkgName gotten) (fetched @ [pkgName]) = Some y" by blast
          with Inr False Some retry show ?thesis by (subst buildLoop.simps) (simp add: Let_def)
        qed
      qed
    qed
  qed
qed

lemma isPrefixOf_append: "isPrefixOf p (p @ s)"
  by (induction p) simp_all

lemma importErrorPattern_hit:
  assumes "name \<noteq> []" "dquote \<notin> set name"
  shows "importErrorPattern (importPrefix @ name @ dquote # rest) = Some name"
proof -
  have tk: "takeWhile (\<lambda>c. c \<noteq> dquote) (name @ dquote # rest) = name"
    and dr: "dropWhile (\<lambda>c. c \<noteq> dquote) (name @ dquote # rest) = dquote # rest"
  proof -
    have a: "\<forall>c\<in>set name. c \<noteq> dquote" using assms(2) by auto
    have b: "dquote # rest = [] \<or> \<not> hd (dquote # rest) \<noteq> dquote" by simp
    from span_run [OF a b]
    show "takeWhile (\<lambda>c. c \<noteq> dquote) (name @ dquote # rest) = name"
      and "dropWhile (\<lambda>c. c \<noteq> dquote) (name @ dquote # rest) = dquote # rest" by simp_all
  qed
  have m: "matchImportAt (importPrefix @ name @ dquote # rest) = Some name"
    using assms(1) by (simp add: matchImportAt_def isPrefixOf_append tk dr)
  obtain c cs where "importPrefix @ name @ dquote # rest = c # cs"
    by (cases "importPrefix @ name @ dquote # rest") (simp_all add: importPrefix_def)
  with m show ?thesis by simp
qed


lemma Build_from_loop:
  "Build env buildFlags = Some y \<Longrightarrow>
   snd y = [] \<and> ((\<exists>a. fst y = Inl a) \<or> (\<exists>e. fst y = Inr (None, Some e))) \<or>
   (\<exists>goPath binDir.
      build_Import env (gospf_ImportPath env) = Some binDir \<and>
      buildLoop env goPath (binaryName env binDir)
        (Config_StringDefault (compileEnv env) ''build.tags'' []) buildFlags 0 {} [] = Some y)"
  by (auto simp: Build_def Let_def split: sum.splits option.splits)

lemma Build_terminates:
  assumes "finite P"
    and "\<forall>n goPath args p.
        importErrorPattern (snd (CombinedOutput env n goPath args)) = Some p \<longrightarrow> p \<in> P"
  shows "\<exists>y. Build env buildFlags = Some y"
  using buildLoop_terminates [OF assms]
  by (auto simp: Build_def Let_def split: sum.splits option.splits)

lemma Build_fetched_distinct: "Build env buildFlags = Some y \<Longrightarrow> distinct (snd y)"
proof -
  assume b: "Build env buildFlags = Some y"
  from Build_from_loop [OF b] show ?thesis
  proof (elim disjE exE conjE)
    fix goPath binDir
    assume "buildLoop env goPath (binaryName env binDir)
        (Config_StringDefault (compileEnv env) ''build.tags'' []) buildFlags 0 {} [] = Some y"
    from buildLoop_fetched_distinct [OF this] show ?thesis by simp
  qed simp_all
qed

lemma Build_fetched_reported:
  assumes "\<forall>n goPath args p.
        importErrorPattern (snd (CombinedOutput env n goPath args)) = Some p \<longrightarrow> p \<in> P"
    and b: "Build env buildFlags = Some y"
  shows "set (snd y) \<subseteq> P"
proof -
  from Build_from_loop [OF b] show ?thesis
  proof (elim disjE exE conjE)
    fix goPath binDir
    assume "buildLoop env goPath (binaryName env binDir)
        (Config_StringDefault (compileEnv env) ''build.tags'' []) buildFlags 0 {} [] = Some y"
    from buildLoop_fetched_reported [OF this, of P] assms(1) show ?thesis by simp
  qed simp_all
qed

lemma buildLoop_stops:
  assumes "getAppVersion (versionEnv env n) (gospf_BasePath env) = Inr v"
    and "CombinedOutput env n goPath (buildArgs env v buildTags binName buildFlags) = (False, out)"
    and "importErrorPattern out = Some pkg"
    and "pkg \<in> gotten \<or> \<not> fst (CombinedOutput env n goPath [''get'', pkg])"
  shows "\<exists>fetched'. buildLoop env goPath binName buildTags buildFlags n gotten fetched =
           Some (Inr (None, Some (newCompileError (compileEnv env) out)), fetched')"
  using assms by (subst buildLoop.simps) (auto simp: Let_def)

text \<open>
  Sample surroundings: an application without controllers whose generated sources can
  be written, with the toolchain installed, no version override and no checkout. The
  parameter is the behaviour of the commands that \<open>Build\<close> runs.
\<close>

definition emptySource :: SourceInfo where
  "emptySource =
     \<lparr>ControllerSpecs = [], TestSuites = [], ValidationKeys = [], InitImportPaths = []\<rparr>"

definition sampleBuildEnv :: "(nat \<Rightarrow> string \<Rightarrow> string list \<Rightarrow> bool \<times> string) \<Rightarrow> BuildEnv" where
  "sampleBuildEnv run =
     \<lparr>ProcessSource = Inr emptySource,
      Config_String = (\<lambda>key. None),
      compileEnv = sampleCompileEnv,
      gospf_ImportPath = ''shop'',
      gospf_BasePath = ''/home/dev/go/src/shop'',
      gospf_AppPath = ''/home/dev/go/src/shop/app'',
      ExecuteTemplate = (\<lambda>t args. []),
      os_Mkdir = (\<lambda>p. MkdirDone),
      os_Create = (\<lambda>p. True),
      file_WriteString = (\<lambda>p text. True),
      LookPath = (\<lambda>name. Some ''/usr/bin/go''),
      build_Import = (\<lambda>p. Some ''/home/dev/go/bin''),
      runtime_GOOS = ''linux'',
      environ = (\<lambda>name. []),
      versionEnv = (\<lambda>n. env_plain),
      CombinedOutput = run\<rparr>"

text \<open>
  Three toolchains. The first never finds a package \<open>dep0\<close>, \<open>dep1\<close>, ...: a new
  one in each iteration, while every \<open>go get\<close> succeeds. The second reports the same
  missing package in every build, also after a successful \<open>go get\<close>. The third
  builds at once.
\<close>

definition missingPackage :: "string \<Rightarrow> string" where
  "missingPackage name = importPrefix @ name @ [dquote]"

definition depName :: "nat \<Rightarrow> string" where
  "depName n = ''dep'' @ itoa n"

definition env_fresh_package :: BuildEnv where
  "env_fresh_package =
     sampleBuildEnv (\<lambda>n prog args.
       if hd args = ''get'' then (True, [])
       else (False, missingPackage (depName n)))"

definition env_same_package :: BuildEnv where
  "env_same_package =
     sampleBuildEnv (\<lambda>n prog args.
       if hd args = ''get'' then (True, [])
       else (False, missingPackage ''github.com/lib/pq''))"

definition env_builds :: BuildEnv where
  "env_builds = sampleBuildEnv (\<lambda>n prog args. (True, []))"

lemma sample_prologue:
  "Build (sampleBuildEnv run) buildFlags =
     buildLoop (sampleBuildEnv run) ''/usr/bin/go'' ''/home/dev/go/bin/gospf.d/shop/shop'' []
       buildFlags 0 {} []"
  by (simp add: Build_def sampleBuildEnv_def emptySource_def genSource_def binaryName_def
      sampleCompileEnv_def path_Join_def path_Clean_def path_Base_def Let_def)

lemma sample_version:
  "getAppVersion (versionEnv (sampleBuildEnv run) n) (gospf_BasePath (sampleBuildEnv run)) = Inr []"
  by (simp add: sampleBuildEnv_def getAppVersion_def env_plain_def)

lemma buildArgs_not_get: "hd (buildArgs env v tags binName flags) \<noteq> ''get''"
  by (simp add: buildArgs_def Let_def)

lemma itoa_digits: "set (itoa n) \<subseteq> set ''0123456789''"
proof (induction n rule: itoa.induct)
  case (1 n)
  have d: "\<And>k. k < 10 \<Longrightarrow> digitChar k \<in> set ''0123456789''"
    unfolding digitChar_def by (rule nth_mem) simp
  show ?case
  proof (cases "n < 10")
    case True
    then show ?thesis using d [of n] by (subst itoa.simps) simp
  next
    case False
    have "n mod 10 < 10" by simp
    from d [OF this] "1.IH" [OF False] False show ?thesis
      by (subst itoa.simps) simp
  qed
qed

lemma depName_ok: "depName n \<noteq> []" "dquote \<notin> set (depName n)"
  using itoa_digits [of n] by (auto simp: dquote_def depName_def)

lemma depName_inj: "depName a = depName b \<Longrightarrow> a = b"
  by (auto simp: depName_def dest: itoa_inj)

lemma importErrorPattern_missing:
  "name \<noteq> [] \<Longrightarrow> dquote \<notin> set name \<Longrightarrow> importErrorPattern (missingPackage name) = Some name"
  using importErrorPattern_hit [of name "[]"] by (simp add: missingPackage_def)

lemma fresh_package_never_returns:
  "buildLoop env goPath binName buildTags buildFlags n gotten fetched = Some y \<Longrightarrow>
   env = env_fresh_package \<longrightarrow> \<not> (\<forall>q\<in>gotten. \<exists>k<n. q = depName k)"
proof (induction rule: buildLoop.raw_induct [rotated 1, consumes 1])
  case (1 loop env goPath binName buildTags buildFlags n gotten fetched y)
  show ?case
  proof (intro impI notI)
    assume env: "env = env_fresh_package"
      and inv: "\<forall>q\<in>gotten. \<exists>k<n. q = depName k"
    have ver: "getAppVersion (versionEnv env n) (gospf_BasePath env) = Inr []"
      unfolding env env_fresh_package_def by (rule sample_version)
    have run: "\<And>args. CombinedOutput env n goPath args =
        (if hd args = ''get'' then (True, []) else (False, missingPackage (depName n)))"
      by (simp add: env env_fresh_package_def sampleBuildEnv_def)
    have pkg: "importErrorPattern (missingPackage (depName n)) = Some (depName n)"
      by (rule importErrorPattern_missing) (rule depName_ok)+
    have new: "depName n \<notin> gotten"
    proof
      assume "depName n \<in> gotten"
      with inv obtain k where "k < n" "depName n = depName k" by blast
      then show False by (auto dest: depName_inj)
    qed
    have inv': "\<forall>q\<in>insert (depName n) gotten. \<exists>k<Suc n. q = depName k"
      using inv by (auto simp: less_Suc_eq)
    from "1.hyps" have "loop env goPath binName buildTags buildFlags (Suc n)
        (insert (depName n) gotten) (fetched @ [depName n]) = Some y"
      by (simp add: ver run buildArgs_not_get pkg new Let_def)
    from "1.IH" [OF this] env inv' show False by simp
  qed
qed

text \<open>
  Claim C2, as amended. (1) When the packages that the build outputs report missing
  all lie in a finite set \<open>P\<close>, \<open>Build\<close> returns, and the packages it fetched
  are pairwise different members of \<open>P\<close>: at most one \<open>go get\<close> for each, at most
  \<open>card P\<close> in all. (2) Whenever \<open>Build\<close> returns, no package was fetched twice.
  (3) In any iteration, when the build fails and its output names a package that is
  already in the attempted set, or the \<open>go get\<close> for it fails, the loop stops and
  returns no App and the compile error made from that output. The claim's
  unconditional "always terminates" is not there: the guard ends the loop only when a
  package repeats.
\<close>

theorem Build_fetch_retry:
  "(finite P \<and>
    (\<forall>n goPath args p.
        importErrorPattern (snd (CombinedOutput env n goPath args)) = Some p \<longrightarrow> p \<in> P) \<longrightarrow>
      (\<exists>r fetched. Build env buildFlags = Some (r, fetched) \<and>
         distinct fetched \<and> set fetched \<subseteq> P \<and> length fetched \<le> card P))
   \<and> (Build env' buildFlags' = Some (r', fetched') \<longrightarrow> distinct fetched')
   \<and> (getAppVersion (versionEnv e n) (gospf_BasePath e) = Inr v \<and>
       CombinedOutput e n goPath (buildArgs e v tags binName flags) = (False, out) \<and>
       importErrorPattern out = Some pkg \<and>
       (pkg \<in> gotten \<or> \<not> fst (CombinedOutput e n goPath [''get'', pkg])) \<longrightarrow>
      (\<exists>fetched''. buildLoop e goPath binName tags flags n gotten fetched0 =
           Some (Inr (None, Some (newCompileError (compileEnv e) out)), fetched'')))"
proof (intro conjI impI)
  assume h: "finite P \<and>
    (\<forall>n goPath args p.
        importErrorPattern (snd (CombinedOutput env n goPath args)) = Some p \<longrightarrow> p \<in> P)"
  then obtain y where y: "Build env buildFlags = Some y"
    using Build_terminates [of P env buildFlags] by blast
  have d: "distinct (snd y)" using y by (rule Build_fetched_distinct)
  have sub: "set (snd y) \<subseteq> P" using h y by (intro Build_fetched_reported) simp_all
  have "length (snd y) = card (set (snd y))" using d by (simp add: distinct_card)
  also have "\<dots> \<le> card P" using sub h by (intro card_mono) simp_all
  finally have "length (snd y) \<le> card P" .
  with y d sub show "\<exists>r fetched. Build env buildFlags = Some (r, fetched) \<and>
         distinct fetched \<and> set fetched \<subseteq> P \<and> length fetched \<le> card P"
    by (cases y) auto
next
  assume "Build env' buildFlags' = Some (r', fetched')"
  from Build_fetched_distinct [OF this] show "distinct fetched'" by simp
next
  assume h: "getAppVersion (versionEnv e n) (gospf_BasePath e) = Inr v \<and>
       CombinedOutput e n goPath (buildArgs e v tags binName flags) = (False, out) \<and>
       importErrorPattern out = Some pkg \<and>
       (pkg \<in> gotten \<or> \<not> fst (CombinedOutput e n goPath [''get'', pkg]))"
  then have h1: "getAppVersion (versionEnv e n) (gospf_BasePath e) = Inr v"
    and h2: "CombinedOutput e n goPath (buildArgs e v tags binName flags) = (False, out)"
    and h3: "importErrorPattern out = Some pkg"
    and h4: "pkg \<in> gotten \<or> \<not> fst (CombinedOutput e n goPath [''get'', pkg])"
    by blast+
  from h1 h2 h3 h4
  show "\<exists>fetched''. buildLoop e goPath binName tags flags n gotten fetched0 =
           Some (Inr (None, Some (newCompileError (compileEnv e) out)), fetched'')"
    by (rule buildLoop_stops)
qed

text \<open>
  With a toolchain that reports a package never seen before in every iteration, and a
  \<open>go get\<close> that always succeeds, no guard of the loop ever fires: \<open>Build\<close> does
  not return.
\<close>

theorem Build_never_returns: "Build env_fresh_package [] = None"
proof (cases "Build env_fresh_package []")
  case None
  then show ?thesis .
next
  case (Some y)
  then have "buildLoop env_fresh_package ''/usr/bin/go'' ''/home/dev/go/bin/gospf.d/shop/shop'' []
       [] 0 {} [] = Some y"
    by (simp add: env_fresh_package_def sample_prologue)
  from fresh_package_never_returns [OF this] show ?thesis by simp
qed

lemma Build_same_package:
  "Build env_same_package [] =
     Some (Inr (None, Some (newCompileError sampleCompileEnv (missingPackage ''github.com/lib/pq''))),
           [''github.com/lib/pq''])"
proof -
  have pkg: "importErrorPattern (missingPackage ''github.com/lib/pq'') = Some ''github.com/lib/pq''"
    by (rule importErrorPattern_missing) (simp_all add: dquote_def)
  have cenv: "compileEnv (sampleBuildEnv run) = sampleCompileEnv" for run
    by (simp add: sampleBuildEnv_def)
  have run: "CombinedOutput env_same_package n goPath args =
        (if hd args = ''get'' then (True, []) else (False, missingPackage ''github.com/lib/pq''))"
    for n goPath args
    by (simp add: env_same_package_def sampleBuildEnv_def)
  have ver: "getAppVersion (versionEnv env_same_package n) (gospf_BasePath env_same_package) = Inr []"
    for n unfolding env_same_package_def by (rule sample_version)
  have cenv': "compileEnv env_same_package = sampleCompileEnv"
    unfolding env_same_package_def by (rule cenv)
  have "Build env_same_package [] = buildLoop env_same_package ''/usr/bin/go''
      ''/home/dev/go/bin/gospf.d/shop/shop'' [] [] 0 {} []"
    unfolding env_same_package_def by (rule sample_prologue)
  also have "\<dots> = buildLoop env_same_package ''/usr/bin/go''
      ''/home/dev/go/bin/gospf.d/shop/shop'' [] [] (Suc 0) {''github.com/lib/pq''} [''github.com/lib/pq'']"
    by (subst buildLoop.simps) (simp add: ver run buildArgs_not_get pkg Let_def)
  also have "\<dots> = Some (Inr (None, Some (newCompileError sampleCompileEnv
      (missingPackage ''github.com/lib/pq''))), [''github.com/lib/pq''])"
    by (subst buildLoop.simps) (simp add: ver run buildArgs_not_get pkg Let_def cenv')
  finally show ?thesis .
qed

lemma Build_builds:
  "Build env_builds [] = Some (Inr (Some (NewApp ''/home/dev/go/bin/gospf.d/shop/shop''), None), [])"
proof -
  have ver: "getAppVersion (versionEnv env_builds n) (gospf_BasePath env_builds) = Inr []"
    for n unfolding env_builds_def by (rule sample_version)
  have run: "CombinedOutput env_builds n goPath args = (True, [])" for n goPath args
    by (simp add: env_builds_def sampleBuildEnv_def)
  have "Build env_builds [] = buildLoop env_builds ''/usr/bin/go''
      ''/home/dev/go/bin/gospf.d/shop/shop'' [] [] 0 {} []"
    unfolding env_builds_def by (rule sample_prologue)
  also have "\<dots> = Some (Inr (Some (NewApp ''/home/dev/go/bin/gospf.d/shop/shop''), None), [])"
    by (subst buildLoop.simps) (simp add: ver run Let_def)
  finally show ?thesis .
qed

theorem Build_fetch_retry_witness:
  "(\<exists>r fetched. Build env_same_package [] = Some (r, fetched) \<and> distinct fetched \<and>
       set fetched \<subseteq> {''github.com/lib/pq''} \<and> length fetched \<le> 1)
   \<and> (\<exists>fetched. buildLoop env_same_package ''/usr/bin/go''
          ''/home/dev/go/bin/gospf.d/shop/shop'' [] [] 1 {''github.com/lib/pq''}
          [''github.com/lib/pq''] =
        Some (Inr (None, Some (newCompileError sampleCompileEnv
                                 (missingPackage ''github.com/lib/pq''))), fetched))"
proof -
  have pkg: "importErrorPattern (missingPackage ''github.com/lib/pq'') = Some ''github.com/lib/pq''"
    by (rule importErrorPattern_missing) (simp_all add: dquote_def)
  have run: "CombinedOutput env_same_package n goPath args =
        (if hd args = ''get'' then (True, []) else (False, missingPackage ''github.com/lib/pq''))"
    for n goPath args
    by (simp add: env_same_package_def sampleBuildEnv_def)
  have ver: "getAppVersion (versionEnv env_same_package n) (gospf_BasePath env_same_package) = Inr []"
    for n unfolding env_same_package_def by (rule sample_version)
  have cenv: "compileEnv env_same_package = sampleCompileEnv"
    by (simp add: env_same_package_def sampleBuildEnv_def)
  have h1: "finite {''github.com/lib/pq''} \<and>
    (\<forall>n goPath args p.
        importErrorPattern (snd (CombinedOutput env_same_package n goPath args)) = Some p \<longrightarrow>
        p \<in> {''github.com/lib/pq''})"
    by (auto simp: run pkg)
  have h3: "getAppVersion (versionEnv env_same_package 1) (gospf_BasePath env_same_package) = Inr [] \<and>
       CombinedOutput env_same_package 1 ''/usr/bin/go''
         (buildArgs env_same_package [] [] ''/home/dev/go/bin/gospf.d/shop/shop'' []) =
         (False, missingPackage ''github.com/lib/pq'') \<and>
       importErrorPattern (missingPackage ''github.com/lib/pq'') = Some ''github.com/lib/pq'' \<and>
       (''github.com/lib/pq'' \<in> {''github.com/lib/pq''} \<or>
        \<not> fst (CombinedOutput env_same_package 1 ''/usr/bin/go'' [''get'', ''github.com/lib/pq'']))"
    by (simp add: ver run pkg buildArgs_not_get)
  note t = Build_fetch_retry
    [where P = "{''github.com/lib/pq''}" and env = env_same_package and buildFlags = "[]"
       and e = env_same_package and n = 1 and v = "[]" and goPath = "''/usr/bin/go''"
       and tags = "[]" and binName = "''/home/dev/go/bin/gospf.d/shop/shop''" and flags = "[]"
       and out = "missingPackage ''github.com/lib/pq''" and pkg = "''github.com/lib/pq''"
       and gotten = "{''github.com/lib/pq''}" and ?fetched0.0 = "[''github.com/lib/pq'']"]
  from t [THEN conjunct1] h1
  have c1: "\<exists>r fetched. Build env_same_package [] = Some (r, fetched) \<and> distinct fetched \<and>
       set fetched \<subseteq> {''github.com/lib/pq''} \<and> length fetched \<le> 1"
    by simp
  from t [THEN conjunct2, THEN conjunct2] h3
  have c3: "\<exists>fetched. buildLoop env_same_package ''/usr/bin/go''
          ''/home/dev/go/bin/gospf.d/shop/shop'' [] [] 1 {''github.com/lib/pq''}
          [''github.com/lib/pq''] =
        Some (Inr (None, Some (newCompileError sampleCompileEnv
                                 (missingPackage ''github.com/lib/pq''))), fetched)"
    by (simp add: cenv)
  from c1 c3 show ?thesis by blast
qed

text \<open>
  Claim C10. Whenever \<open>Build\<close> returns (rather than stopping the program or running
  forever), it returns an App exactly when it returns no error; and with no error the
  App is the fresh handle for the binary path that \<open>Build\<close> computed.
\<close>

theorem Build_app_xor_error:
  "Build env buildFlags = Some (Inr (built, compileError), fetched) \<longrightarrow>
     ((built \<noteq> None) = (compileError = None)) \<and>
     (compileError = None \<longrightarrow>
        (\<exists>binDir. build_Import env (gospf_ImportPath env) = Some binDir \<and>
                  built = Some (NewApp (binaryName env binDir))))"
proof
  assume b: "Build env buildFlags = Some (Inr (built, compileError), fetched)"
  from Build_from_loop [OF b]
  show "((built \<noteq> None) = (compileError = None)) \<and>
     (compileError = None \<longrightarrow>
        (\<exists>binDir. build_Import env (gospf_ImportPath env) = Some binDir \<and>
                  built = Some (NewApp (binaryName env binDir))))"
  proof (elim disjE exE conjE)
    fix goPath binDir
    assume bd: "build_Import env (gospf_ImportPath env) = Some binDir"
      and "buildLoop env goPath (binaryName env binDir)
        (Config_StringDefault (compileEnv env) ''build.tags'' []) buildFlags 0 {} [] =
        Some (Inr (built, compileError), fetched)"
    from buildLoop_result_shape [OF this(2)] bd show ?thesis by auto
  qed auto
qed

theorem Build_app_xor_error_witness:
  "Build env_builds [] =
     Some (Inr (Some (NewApp ''/home/dev/go/bin/gospf.d/shop/shop''), None), [])
   \<and> (\<exists>binDir. build_Import env_builds (gospf_ImportPath env_builds) = Some binDir \<and>
         NewApp ''/home/dev/go/bin/gospf.d/shop/shop'' = NewApp (binaryName env_builds binDir))"
  using Build_app_xor_error
    [of env_builds "[]" "Some (NewApp ''/home/dev/go/bin/gospf.d/shop/shop'')" None "[]"]
    Build_builds
  by simp

section \<open>Harness.ServeHTTP\<close>

text \<open>
  The harness: the supervised App (nil before the first build), the address of the
  supervised server and its port. The reverse proxy is an object of the standard
  library and appears only through the action of forwarding to it.
\<close>

record Harness =
  app :: "App option"
  serverHost :: string
  port :: int

text \<open>
  A request as \<open>ServeHTTP\<close> reads it: the URL path, and whether
  \<open>strings.EqualFold(r.Header.Get("Upgrade"), "websocket")\<close> holds. What the handler
  does to the outside is a list of actions, in order. \<open>watcher.Notify\<close> belongs to the
  framework; its result (nil, or the error of the rebuild) is given with the request
  and read only when the handler calls it.
\<close>

record Request =
  urlPath :: string
  upgradeIsWebsocket :: bool

datatype action =
    CallNotify
  | RenderError Error
  | ProxyWebsocket string
  | ReverseProxy

text \<open>\<open>atomic.CompareAndSwapInt32(&v, old, new)\<close>, as the new value of \<open>v\<close>.\<close>

definition CompareAndSwapInt32 :: "int \<Rightarrow> int \<Rightarrow> int \<Rightarrow> int" where
  "CompareAndSwapInt32 v old new = (if v = old then new else v)"

text \<open>
  The handler takes the global \<open>lastRequestHadError\<close> and returns its new value with
  the actions performed. The global is an \<open>int32\<close> that starts at 0 and is written
  only by the two compare-and-swap calls, which store 1 and 0: there is no arithmetic
  on it, so it is an integer here.
\<close>

definition ServeHTTP :: "Harness \<Rightarrow> int \<Rightarrow> Request \<Rightarrow> Error option \<Rightarrow> action list \<times> int" where
  "ServeHTTP hp lastRequestHadError r notifyResult =
     (if lastRequestHadError > 0 \<and> urlPath r = ''/favicon.ico'' then ([], lastRequestHadError)
      else
        (case notifyResult of
           Some err \<Rightarrow>
             ([CallNotify, RenderError err], CompareAndSwapInt32 lastRequestHadError 0 1)
         | None \<Rightarrow>
             ([CallNotify,
               if upgradeIsWebsocket r then ProxyWebsocket (serverHost hp) else ReverseProxy],
              CompareAndSwapInt32 lastRequestHadError 1 0)))"

text \<open>
  Requests handled one after the other, starting from a given flag: the actions of
  each request, and the flag at the end.
\<close>

fun serveAll :: "Harness \<Rightarrow> int \<Rightarrow> (Request \<times> Error option) list \<Rightarrow> action list list \<times> int" where
  "serveAll hp flag [] = ([], flag)"
| "serveAll hp flag ((r, n) # rest) =
     (let (acts, flag') = ServeHTTP hp flag r n;
          (more, final) = serveAll hp flag' rest
      in (acts # more, final))"


text \<open>
  The actions that forward a request to the supervised process, and the suppressed
  class: a request for \<open>/favicon.ico\<close> while the flag is set.
\<close>

definition isForward :: "action \<Rightarrow> bool" where
  "isForward a = (case a of ProxyWebsocket h \<Rightarrow> True | ReverseProxy \<Rightarrow> True | _ \<Rightarrow> False)"

definition suppressed :: "int \<Rightarrow> Request \<Rightarrow> bool" where
  "suppressed flag r = (flag > 0 \<and> urlPath r = ''/favicon.ico'')"

subsection \<open>Properties of ServeHTTP\<close>


lemma ServeHTTP_error:
  "\<not> suppressed flag r \<Longrightarrow>
   ServeHTTP hp flag r (Some e) = ([CallNotify, RenderError e], CompareAndSwapInt32 flag 0 1)"
  by (simp add: ServeHTTP_def suppressed_def)

lemma ServeHTTP_ok:
  "\<not> suppressed flag r \<Longrightarrow>
   ServeHTTP hp flag r None =
     ([CallNotify, if upgradeIsWebsocket r then ProxyWebsocket (serverHost hp) else ReverseProxy],
      CompareAndSwapInt32 flag 1 0)"
  by (simp add: ServeHTTP_def suppressed_def)


text \<open>
  Claim C6. For every request that is not in the suppressed class (a \<open>/favicon.ico\<close>
  request while the error flag is set), the first action is the call of \<open>Notify\<close>;
  and when \<open>Notify\<close> returns an error, the handler renders that error and stops: the
  actions are exactly the call and the rendering, so nothing is forwarded, neither
  through the reverse proxy nor through the WebSocket tunnel.
\<close>

theorem ServeHTTP_notify_first_error_not_forwarded:
  "\<not> suppressed flag r \<longrightarrow>
     (\<exists>rest. fst (ServeHTTP hp flag r n) = CallNotify # rest) \<and>
     (\<forall>err. n = Some err \<longrightarrow>
        fst (ServeHTTP hp flag r n) = [CallNotify, RenderError err] \<and>
        filter isForward (fst (ServeHTTP hp flag r n)) = [])"
proof
  assume ns: "\<not> suppressed flag r"
  show "(\<exists>rest. fst (ServeHTTP hp flag r n) = CallNotify # rest) \<and>
     (\<forall>err. n = Some err \<longrightarrow>
        fst (ServeHTTP hp flag r n) = [CallNotify, RenderError err] \<and>
        filter isForward (fst (ServeHTTP hp flag r n)) = [])"
  proof (cases n)
    case None
    then show ?thesis by (simp add: ServeHTTP_ok [OF ns])
  next
    case (Some e)
    then show ?thesis by (simp add: ServeHTTP_error [OF ns] isForward_def)
  qed
qed

definition sampleHarness :: Harness where
  "sampleHarness = \<lparr>app = None, serverHost = ''localhost:41000'', port = 41000\<rparr>"

definition sampleError :: Error where
  "sampleError =
     emptyError\<lparr>SourceType := ''Go code'', Title := ''Go Compilation Error'',
       Path := ''app/controllers/app.go'', Description := ''undefined: x'', Line := 12\<rparr>"

definition pageRequest :: Request where
  "pageRequest = \<lparr>urlPath = ''/index'', upgradeIsWebsocket = False\<rparr>"

definition faviconRequest :: Request where
  "faviconRequest = \<lparr>urlPath = ''/favicon.ico'', upgradeIsWebsocket = False\<rparr>"

theorem ServeHTTP_notify_first_error_not_forwarded_witness:
  "\<not> suppressed 1 pageRequest \<and>
   fst (ServeHTTP sampleHarness 1 pageRequest (Some sampleError)) =
     [CallNotify, RenderError sampleError] \<and>
   filter isForward (fst (ServeHTTP sampleHarness 1 pageRequest (Some sampleError))) = []"
proof -
  have ns: "\<not> suppressed 1 pageRequest"
    by (simp add: suppressed_def pageRequest_def)
  from ServeHTTP_notify_first_error_not_forwarded
    [of 1 pageRequest sampleHarness "Some sampleError"] ns
  show ?thesis by (simp add: isForward_def)
qed


text \<open>
  A run: a page request whose rebuild fails, a favicon probe, a second failing page
  request, and a page request after the fix.
\<close>

definition sampleRun :: "(Request \<times> Error option) list" where
  "sampleRun =
     [(pageRequest, Some sampleError), (faviconRequest, None),
      (pageRequest, Some sampleError), (pageRequest, None)]"

lemma sampleRun_trace:
  "serveAll sampleHarness 0 sampleRun =
     ([[CallNotify, RenderError sampleError], [],
       [CallNotify, RenderError sampleError], [CallNotify, ReverseProxy]], 0)"
  by (simp add: sampleRun_def ServeHTTP_def CompareAndSwapInt32_def pageRequest_def
      faviconRequest_def)


section \<open>Harness.Refresh\<close>

text \<open>
  The processes of the machine are a set of identifiers of live children; \<open>events\<close>
  records, in order, what \<open>Refresh\<close> does to them and when it runs the build.
\<close>

datatype event = Killed "nat option" | BuildRun | Started nat | StartFailed

record World =
  live :: "nat set"
  events :: "event list"

text \<open>
  Modelled from the spec: \<open>App.Kill\<close> is not among the sources. The spec says that
  \<open>Kill()\<close> terminates the process and is idempotent, safe to call on an already-dead
  or nil process: the child of the handle, if any, leaves the live set.
\<close>

definition Kill :: "App \<Rightarrow> World \<Rightarrow> World" where
  "Kill a w = w\<lparr>live := live w - set_option (proc a), events := events w @ [Killed (proc a)]\<rparr>"

text \<open>
  Modelled from the spec: \<open>App.Cmd().Start()\<close> is not among the sources. The spec says
  that the start launches the binary and records the process handle, and that its
  failure means that the child failed to launch: \<open>startChild\<close> is the outcome for an
  App, the identifier of the new child or the text of the error, and a failed start
  leaves no child behind.
\<close>

record HarnessEnv =
  buildEnv :: BuildEnv
  startChild :: "App \<Rightarrow> string + nat"

definition Start :: "HarnessEnv \<Rightarrow> App \<Rightarrow> World \<Rightarrow> string option \<times> App \<times> World" where
  "Start env a w =
     (case startChild env a of
        Inr pid \<Rightarrow>
          (None, a\<lparr>proc := Some pid\<rparr>,
           w\<lparr>live := insert pid (live w), events := events w @ [Started pid]\<rparr>)
      | Inl msg \<Rightarrow> (Some msg, a, w\<lparr>events := events w @ [StartFailed]\<rparr>))"

text \<open>
  \<open>Harness.Refresh\<close>. The result is \<open>None\<close> when the build never returns, an abort
  when the build stops the program, and otherwise the returned error with the harness
  and the processes afterwards. \<open>h.app\<close> is assigned whatever \<open>Build\<close> returns, also
  on failure.
\<close>

definition Refresh ::
  "HarnessEnv \<Rightarrow> Harness \<Rightarrow> World \<Rightarrow> (abort + (Error option \<times> Harness \<times> World)) option" where
  "Refresh env h w =
     (let w1 = (case app h of Some a \<Rightarrow> Kill a w | None \<Rightarrow> w);
          w2 = w1\<lparr>events := events w1 @ [BuildRun]\<rparr>
      in case Build (buildEnv env) [] of
           None \<Rightarrow> None
         | Some (Inl a, fetched) \<Rightarrow> Some (Inl a)
         | Some (Inr (built, err), fetched) \<Rightarrow>
             (let h1 = h\<lparr>app := built\<rparr>
              in case err of
                   Some e \<Rightarrow> Some (Inr (Some e, h1, w2))
                 | None \<Rightarrow>
                     (case built of
                        None \<Rightarrow> Some (Inl NilDereference)
                      | Some a \<Rightarrow>
                          (case Start env (a\<lparr>Port := port h\<rparr>) w2 of
                             (Some msg, a', w3) \<Rightarrow>
                               Some (Inr (Some (emptyError\<lparr>Title := ''App failed to start up'',
                                                  Description := msg\<rparr>),
                                          h1\<lparr>app := Some a'\<rparr>, w3))
                           | (None, a', w3) \<Rightarrow> Some (Inr (None, h1\<lparr>app := Some a'\<rparr>, w3))))))"

text \<open>
  The child of the App that the harness holds before a refresh, the event of its
  kill, and the test for kill events.
\<close>

definition priorProcs :: "Harness \<Rightarrow> nat set" where
  "priorProcs h = (case app h of Some a \<Rightarrow> set_option (proc a) | None \<Rightarrow> {})"

definition priorKill :: "Harness \<Rightarrow> event list" where
  "priorKill h = (case app h of Some a \<Rightarrow> [Killed (proc a)] | None \<Rightarrow> [])"

definition isKill :: "event \<Rightarrow> bool" where
  "isKill ev = (case ev of Killed p \<Rightarrow> True | _ \<Rightarrow> False)"

subsection \<open>Properties of Refresh\<close>

lemma Build_new_app_unstarted:
  "Build benv flags = Some (Inr (Some a, err), fetched) \<Longrightarrow> proc a = None"
proof -
  assume b: "Build benv flags = Some (Inr (Some a, err), fetched)"
  from Build_from_loop [OF b] show ?thesis
  proof (elim disjE exE conjE)
    fix goPath binDir
    assume "buildLoop benv goPath (binaryName benv binDir)
        (Config_StringDefault (compileEnv benv) ''build.tags'' []) flags 0 {} [] =
        Some (Inr (Some a, err), fetched)"
    from buildLoop_result_shape [OF this] show ?thesis by (auto simp: NewApp_def)
  qed auto
qed

lemma Refresh_after_kill:
  "Refresh env h w = Some (Inr (res, h', w')) \<Longrightarrow>
   \<exists>later. events w' = events w @ priorKill h @ BuildRun # later \<and> filter isKill later = []"
  by (auto simp: Refresh_def Start_def Kill_def Let_def priorKill_def isKill_def
      split: option.splits sum.splits prod.splits)

lemma Refresh_failed_stopped:
  assumes "Refresh env h w = Some (Inr (Some e, h', w'))"
  shows "live w' = live w - priorProcs h \<and> (\<forall>a'. app h' = Some a' \<longrightarrow> proc a' = None)"
  using assms
  by (auto simp: Refresh_def Start_def Kill_def Let_def priorProcs_def
      split: option.splits sum.splits prod.splits)
     (erule Build_new_app_unstarted)+

lemma Refresh_succeeded_running:
  assumes "Refresh env h w = Some (Inr (None, h', w'))"
  shows "\<exists>a' pid. app h' = Some a' \<and> proc a' = Some pid \<and>
           live w' = insert pid (live w - priorProcs h)"
  using assms
  by (auto simp: Refresh_def Start_def Kill_def Let_def priorProcs_def
      split: option.splits sum.splits prod.splits)

lemma Refresh_build_error:
  "Build (buildEnv env) [] = Some (Inr (built, Some e), fetched) \<Longrightarrow>
   \<exists>h' w'. Refresh env h w = Some (Inr (Some e, h', w'))"
  by (simp add: Refresh_def Let_def)

lemma Refresh_start_error:
  "Build (buildEnv env) [] = Some (Inr (Some a, None), fetched) \<Longrightarrow>
   startChild env (a\<lparr>Port := port h\<rparr>) = Inl msg \<Longrightarrow>
   \<exists>h' w'. Refresh env h w =
      Some (Inr (Some (emptyError\<lparr>Title := ''App failed to start up'', Description := msg\<rparr>),
                 h', w'))"
  by (simp add: Refresh_def Let_def Start_def)

text \<open>
  Claim C8. (1) Whenever \<open>Refresh\<close> returns, the kill of the prior App (if there was
  one) is the first thing it did, before the build ran, and nothing is killed after
  the build; after a failure no child of the prior App is alive any more and the App
  that the harness now holds, if any, has no process, so that no child at all is
  alive when the prior App's was the only one; after a success exactly the new child
  is added. (2) When \<open>Build\<close> returns an error, \<open>Refresh\<close> returns that error.
  (3) When the build succeeds and the start of the new child fails, \<open>Refresh\<close>
  returns the start-up error.
\<close>

theorem Refresh_kills_before_build:
  "(Refresh env h w = Some (Inr (res, h', w')) \<longrightarrow>
      (\<exists>later. events w' = events w @ priorKill h @ BuildRun # later \<and>
               filter isKill later = []) \<and>
      (res \<noteq> None \<longrightarrow>
         live w' = live w - priorProcs h \<and>
         (\<forall>a'. app h' = Some a' \<longrightarrow> proc a' = None) \<and>
         (live w \<subseteq> priorProcs h \<longrightarrow> live w' = {})) \<and>
      (res = None \<longrightarrow>
         (\<exists>a' pid. app h' = Some a' \<and> proc a' = Some pid \<and>
                   live w' = insert pid (live w - priorProcs h))))
   \<and> (Build (buildEnv env2) [] = Some (Inr (built, Some e), fetched) \<longrightarrow>
        (\<exists>h2' w2'. Refresh env2 h2 w2 = Some (Inr (Some e, h2', w2'))))
   \<and> (Build (buildEnv env3) [] = Some (Inr (Some a, None), fetched3) \<and>
       startChild env3 (a\<lparr>Port := port h3\<rparr>) = Inl msg \<longrightarrow>
        (\<exists>h3' w3'. Refresh env3 h3 w3 =
           Some (Inr (Some (emptyError\<lparr>Title := ''App failed to start up'',
                              Description := msg\<rparr>), h3', w3'))))"
proof (intro conjI)
  show "Refresh env h w = Some (Inr (res, h', w')) \<longrightarrow>
      (\<exists>later. events w' = events w @ priorKill h @ BuildRun # later \<and>
               filter isKill later = []) \<and>
      (res \<noteq> None \<longrightarrow>
         live w' = live w - priorProcs h \<and>
         (\<forall>a'. app h' = Some a' \<longrightarrow> proc a' = None) \<and>
         (live w \<subseteq> priorProcs h \<longrightarrow> live w' = {})) \<and>
      (res = None \<longrightarrow>
         (\<exists>a' pid. app h' = Some a' \<and> proc a' = Some pid \<and>
                   live w' = insert pid (live w - priorProcs h)))"
  proof
    assume r: "Refresh env h w = Some (Inr (res, h', w'))"
    have order: "\<exists>later. events w' = events w @ priorKill h @ BuildRun # later \<and>
               filter isKill later = []"
      using r by (rule Refresh_after_kill)
    have failed: "res \<noteq> None \<longrightarrow>
         live w' = live w - priorProcs h \<and>
         (\<forall>a'. app h' = Some a' \<longrightarrow> proc a' = None) \<and>
         (live w \<subseteq> priorProcs h \<longrightarrow> live w' = {})"
    proof
      assume "res \<noteq> None"
      with r obtain err where "Refresh env h w = Some (Inr (Some err, h', w'))" by auto
      from Refresh_failed_stopped [OF this]
      show "live w' = live w - priorProcs h \<and>
         (\<forall>a'. app h' = Some a' \<longrightarrow> proc a' = None) \<and>
         (live w \<subseteq> priorProcs h \<longrightarrow> live w' = {})"
        by auto
    qed
    have succeeded: "res = None \<longrightarrow>
         (\<exists>a' pid. app h' = Some a' \<and> proc a' = Some pid \<and>
                   live w' = insert pid (live w - priorProcs h))"
    proof
      assume "res = None"
      with r have "Refresh env h w = Some (Inr (None, h', w'))" by simp
      then show "\<exists>a' pid. app h' = Some a' \<and> proc a' = Some pid \<and>
                   live w' = insert pid (live w - priorProcs h)"
        by (rule Refresh_succeeded_running)
    qed
    from order failed succeeded
    show "(\<exists>later. events w' = events w @ priorKill h @ BuildRun # later \<and>
               filter isKill later = []) \<and>
      (res \<noteq> None \<longrightarrow>
         live w' = live w - priorProcs h \<and>
         (\<forall>a'. app h' = Some a' \<longrightarrow> proc a' = None) \<and>
         (live w \<subseteq> priorProcs h \<longrightarrow> live w' = {})) \<and>
      (res = None \<longrightarrow>
         (\<exists>a' pid. app h' = Some a' \<and> proc a' = Some pid \<and>
                   live w' = insert pid (live w - priorProcs h)))"
      by (intro conjI)
  qed
next
  show "Build (buildEnv env2) [] = Some (Inr (built, Some e), fetched) \<longrightarrow>
        (\<exists>h2' w2'. Refresh env2 h2 w2 = Some (Inr (Some e, h2', w2')))"
    by (intro impI, rule Refresh_build_error)
next
  show "Build (buildEnv env3) [] = Some (Inr (Some a, None), fetched3) \<and>
       startChild env3 (a\<lparr>Port := port h3\<rparr>) = Inl msg \<longrightarrow>
        (\<exists>h3' w3'. Refresh env3 h3 w3 =
           Some (Inr (Some (emptyError\<lparr>Title := ''App failed to start up'',
                              Description := msg\<rparr>), h3', w3')))"
  proof
    assume "Build (buildEnv env3) [] = Some (Inr (Some a, None), fetched3) \<and>
       startChild env3 (a\<lparr>Port := port h3\<rparr>) = Inl msg"
    then have "Build (buildEnv env3) [] = Some (Inr (Some a, None), fetched3)"
      and "startChild env3 (a\<lparr>Port := port h3\<rparr>) = Inl msg" by simp_all
    then show "\<exists>h3' w3'. Refresh env3 h3 w3 =
           Some (Inr (Some (emptyError\<lparr>Title := ''App failed to start up'',
                              Description := msg\<rparr>), h3', w3'))"
      by (rule Refresh_start_error)
  qed
qed

text \<open>
  A harness whose App runs as child 7, refreshed once with a build that fails and
  once with a build that succeeds while the new binary cannot be started.
\<close>

definition runningHarness :: Harness where
  "runningHarness =
     \<lparr>app = Some \<lparr>BinaryPath = ''/home/dev/go/bin/gospf.d/shop/shop'', Port = 41000,
                   proc = Some 7\<rparr>,
      serverHost = ''localhost:41000'', port = 41000\<rparr>"

definition runningWorld :: World where
  "runningWorld = \<lparr>live = {7}, events = []\<rparr>"

definition env_build_fails :: HarnessEnv where
  "env_build_fails = \<lparr>buildEnv = env_same_package, startChild = (\<lambda>a. Inr 8)\<rparr>"

definition env_start_fails :: HarnessEnv where
  "env_start_fails = \<lparr>buildEnv = env_builds, startChild = (\<lambda>a. Inl ''exec format error'')\<rparr>"

lemma Refresh_build_fails:
  "Refresh env_build_fails runningHarness runningWorld =
     Some (Inr (Some (newCompileError sampleCompileEnv (missingPackage ''github.com/lib/pq'')),
                runningHarness\<lparr>app := None\<rparr>,
                \<lparr>live = {}, events = [Killed (Some 7), BuildRun]\<rparr>))"
  by (simp add: Refresh_def env_build_fails_def Build_same_package runningHarness_def
      runningWorld_def Kill_def Let_def)

lemma Refresh_start_fails:
  "Refresh env_start_fails runningHarness runningWorld =
     Some (Inr (Some (emptyError\<lparr>Title := ''App failed to start up'',
                        Description := ''exec format error''\<rparr>),
                runningHarness\<lparr>app := Some ((NewApp ''/home/dev/go/bin/gospf.d/shop/shop'')
                                               \<lparr>Port := 41000\<rparr>)\<rparr>,
                \<lparr>live = {}, events = [Killed (Some 7), BuildRun, StartFailed]\<rparr>))"
  by (simp add: Refresh_def env_start_fails_def Build_builds runningHarness_def
      runningWorld_def Kill_def Start_def Let_def)

theorem Refresh_kills_before_build_witness:
  "(\<exists>err h' w'. Refresh env_build_fails runningHarness runningWorld = Some (Inr (Some err, h', w')) \<and>
       live w' = {} \<and> app h' = None \<and>
       (\<exists>later. events w' = [Killed (Some 7)] @ BuildRun # later \<and> filter isKill later = []))
   \<and> (\<exists>h' w'. Refresh env_start_fails runningHarness runningWorld =
         Some (Inr (Some (emptyError\<lparr>Title := ''App failed to start up'',
                            Description := ''exec format error''\<rparr>), h', w')))"
proof -
  let ?e = "newCompileError sampleCompileEnv (missingPackage ''github.com/lib/pq'')"
  let ?h' = "runningHarness\<lparr>app := None\<rparr>"
  let ?w' = "\<lparr>live = {}, events = [Killed (Some 7), BuildRun]\<rparr>"
  let ?a = "NewApp ''/home/dev/go/bin/gospf.d/shop/shop''"
  note t = Refresh_kills_before_build
    [where env = env_build_fails and h = runningHarness and w = runningWorld
       and res = "Some ?e" and h' = ?h' and w' = ?w'
       and ?env3.0 = env_start_fails and a = ?a and ?fetched3.0 = "[]" and ?h3.0 = runningHarness
       and msg = "''exec format error''" and ?w3.0 = runningWorld]
  have prior: "priorProcs runningHarness = {7}" "priorKill runningHarness = [Killed (Some 7)]"
    by (simp_all add: priorProcs_def priorKill_def runningHarness_def)
  have start: "Build (buildEnv env_start_fails) [] = Some (Inr (Some ?a, None), []) \<and>
       startChild env_start_fails (?a\<lparr>Port := port runningHarness\<rparr>) = Inl ''exec format error''"
    by (simp add: env_start_fails_def Build_builds)
  from t [THEN conjunct1] Refresh_build_fails
  have "live ?w' = {} \<and>
       (\<exists>later. events ?w' = [Killed (Some 7)] @ BuildRun # later \<and> filter isKill later = [])"
    by (simp add: prior runningWorld_def)
  with Refresh_build_fails
  have c1: "\<exists>err h' w'. Refresh env_build_fails runningHarness runningWorld =
       Some (Inr (Some err, h', w')) \<and> live w' = {} \<and> app h' = None \<and>
       (\<exists>later. events w' = [Killed (Some 7)] @ BuildRun # later \<and> filter isKill later = [])"
    by (intro exI [of _ ?e] exI [of _ ?h'] exI [of _ ?w']) simp
  from t [THEN conjunct2, THEN conjunct2] start
  have c3: "\<exists>h' w'. Refresh env_start_fails runningHarness runningWorld =
         Some (Inr (Some (emptyError\<lparr>Title := ''App failed to start up'',
                            Description := ''exec format error''\<rparr>), h', w'))"
    by simp
  from c1 c3 show ?thesis by blast
qed

end
